theory Spec2Isabelle
  imports Main "HOL-Library.Sublist"
begin

section \<open>Strings\<close>

text \<open>
  A Python \<open>str\<close> is modelled as a \<open>string\<close> whose characters are the code points
  below 256. \<open>isspace\<close> is Python's whitespace test on that range (the one used by
  \<open>\s\<close>, \<open>str.strip\<close> and \<open>str.split\<close>): the code points 9-13, 28-32, 133, 160.
\<close>

definition isspace :: "char \<Rightarrow> bool" where
  "isspace c = (of_char c \<in> {9, 10, 11, 12, 13, 28, 29, 30, 31, 32, 133, 160 :: nat})"

text \<open>\<open>str.lower\<close> on code points below 256: A-Z and the accented capitals move up by 32.\<close>

definition lower_char :: "char \<Rightarrow> char" where
  "lower_char c =
     (let n = of_char c :: nat
      in if (65 \<le> n \<and> n \<le> 90) \<or> (192 \<le> n \<and> n \<le> 222 \<and> n \<noteq> 215)
         then char_of (n + 32) else c)"

definition lower :: "string \<Rightarrow> string" where
  "lower s = map lower_char s"

text \<open>\<open>sep.join(parts)\<close>.\<close>

fun join :: "string \<Rightarrow> string list \<Rightarrow> string" where
  "join sep [] = []"
| "join sep [p] = p"
| "join sep (p # q # ps) = p @ sep @ join sep (q # ps)"

text \<open>\<open>needle in hay\<close> on strings: \<open>needle\<close> occurs as a contiguous substring.\<close>

fun contains :: "string \<Rightarrow> string \<Rightarrow> bool" where
  "contains needle [] = (needle = [])"
| "contains needle (c # cs) = (prefix needle (c # cs) \<or> contains needle cs)"

section \<open>summarizer.py\<close>

text \<open>
  \<open>clean_text\<close> is two regular-expression substitutions around a \<open>strip\<close>.
  \<open>sub_ws_space\<close> is \<open>re.sub(r"\s+", " ", text)\<close>: scanning from the left, every
  maximal run of whitespace is replaced by one space. \<open>sub_ws_before_punct\<close> is
  \<open>re.sub(r"\s+([.,!?;:])", r"\1", s)\<close>: at a whitespace character the greedy
  \<open>\s+\<close> takes the whole run; the match succeeds only when the run is followed by one
  of the six marks (backtracking to a shorter run would need a whitespace character to
  be a mark), the run is then dropped, the mark kept, and the scan goes on after the mark;
  otherwise the character is copied and the scan moves one character on.
\<close>

definition ispunct :: "char \<Rightarrow> bool" where
  "ispunct c = (c \<in> set ''.,!?;:'')"

function sub_ws_space :: "string \<Rightarrow> string" where
  "sub_ws_space [] = []"
| "sub_ws_space (c # cs) =
     (if isspace c then CHR '' '' # sub_ws_space (dropWhile isspace cs)
      else c # sub_ws_space cs)"
  by pat_completeness auto
termination
  by (relation "measure length") (simp_all add: length_dropWhile_le less_Suc_eq_le)

definition strip :: "string \<Rightarrow> string" where
  "strip s = rev (dropWhile isspace (rev (dropWhile isspace s)))"

function sub_ws_before_punct :: "string \<Rightarrow> string" where
  "sub_ws_before_punct [] = []"
| "sub_ws_before_punct (c # cs) =
     (if isspace c
      then (case dropWhile isspace cs of
              [] \<Rightarrow> c # sub_ws_before_punct cs
            | p # rest \<Rightarrow>
                if ispunct p then p # sub_ws_before_punct rest
                else c # sub_ws_before_punct cs)
      else c # sub_ws_before_punct cs)"
  by pat_completeness auto
termination
proof (relation "measure length")
  fix c :: char and cs :: string and p rest
  assume "dropWhile isspace cs = p # rest"
  then have "length (p # rest) \<le> length cs"
    by (metis length_dropWhile_le)
  then show "(rest, c # cs) \<in> measure length" by simp
qed simp_all

definition clean_text :: "string \<Rightarrow> string" where
  "clean_text text = sub_ws_before_punct (strip (sub_ws_space text))"

section \<open>filter.py\<close>

text \<open>
  The item dictionaries built by both front ends carry the four keys
  \<open>title\<close>, \<open>url\<close>, \<open>excerpt\<close>, \<open>categories\<close>.
\<close>

record article_summary =
  title :: string
  url :: string
  excerpt :: string
  categories :: "string list"

definition text_blob :: "article_summary \<Rightarrow> string" where
  "text_blob item =
     lower (join '' '' [title item, excerpt item, join '' '' (categories item)])"

text \<open>The inner function \<open>matches\<close>; it closes over \<open>keywords\<close> and \<open>mode\<close>.\<close>

definition matches :: "string list \<Rightarrow> string \<Rightarrow> article_summary \<Rightarrow> bool" where
  "matches keywords mode item =
     (if mode = ''and''
      then list_all (\<lambda>kw. contains (lower kw) (text_blob item)) keywords
      else list_ex (\<lambda>kw. contains (lower kw) (text_blob item)) keywords)"

definition filter_by_keyword ::
  "article_summary list \<Rightarrow> string list \<Rightarrow> string \<Rightarrow> article_summary list" where
  "filter_by_keyword items keywords mode = filter (matches keywords mode) items"

section \<open>scraper.py\<close>

subsection \<open>The parsed document\<close>

text \<open>
  A parsed page (the \<open>BeautifulSoup\<close> object) is the list of its top-level nodes. A node
  is a text string or an element with its tag name, its attribute dictionary and its
  children. The CSS selections of the source are written out over this tree; each returns
  the matching elements once, in document order.
\<close>

datatype node = Text string | Element string "(string \<times> string) list" "node list"

type_synonym soup = "node list"

fun tag :: "node \<Rightarrow> string" where
  "tag (Text s) = []"
| "tag (Element t attrs cs) = t"

fun attr :: "node \<Rightarrow> string \<Rightarrow> string option" where
  "attr (Text s) name = None"
| "attr (Element t attrs cs) name = map_of attrs name"

fun children :: "node \<Rightarrow> node list" where
  "children (Text s) = []"
| "children (Element t attrs cs) = cs"

text \<open>\<open>str.split()\<close> without arguments: the maximal runs of non-whitespace characters.\<close>

fun split_acc :: "string \<Rightarrow> string \<Rightarrow> string list" where
  "split_acc w [] = (if w = [] then [] else [w])"
| "split_acc w (c # cs) =
     (if isspace c then (if w = [] then split_acc [] cs else w # split_acc [] cs)
      else split_acc (w @ [c]) cs)"

definition split :: "string \<Rightarrow> string list" where
  "split s = split_acc [] s"

definition has_class :: "string \<Rightarrow> node \<Rightarrow> bool" where
  "has_class c n = (case attr n ''class'' of None \<Rightarrow> False | Some v \<Rightarrow> c \<in> set (split v))"

text \<open>
  \<open>select_descendant anc tgt inside n\<close>: the elements at or below \<open>n\<close> that satisfy \<open>tgt\<close>
  and have a proper ancestor satisfying \<open>anc\<close> (the selector \<open>anc tgt\<close>); \<open>inside\<close> says
  whether such an ancestor has been passed already. \<open>select_child\<close> is the selector
  \<open>anc > tgt\<close>: \<open>parent_ok\<close> says whether the parent satisfies \<open>anc\<close>.
\<close>

fun select_descendant :: "(node \<Rightarrow> bool) \<Rightarrow> (node \<Rightarrow> bool) \<Rightarrow> bool \<Rightarrow> node \<Rightarrow> node list" where
  "select_descendant anc tgt inside (Text s) = []"
| "select_descendant anc tgt inside (Element t attrs cs) =
     (if inside \<and> tgt (Element t attrs cs) then [Element t attrs cs] else [])
     @ concat (map (select_descendant anc tgt (inside \<or> anc (Element t attrs cs))) cs)"

fun select_child :: "(node \<Rightarrow> bool) \<Rightarrow> (node \<Rightarrow> bool) \<Rightarrow> bool \<Rightarrow> node \<Rightarrow> node list" where
  "select_child anc tgt parent_ok (Text s) = []"
| "select_child anc tgt parent_ok (Element t attrs cs) =
     (if parent_ok \<and> tgt (Element t attrs cs) then [Element t attrs cs] else [])
     @ concat (map (select_child anc tgt (anc (Element t attrs cs))) cs)"

text \<open>
  \<open>get_text(" ", strip=True)\<close>: the text strings below the node in document order, each
  stripped, the empty ones skipped, joined by the separator.
\<close>

fun strings :: "node \<Rightarrow> string list" where
  "strings (Text s) = [s]"
| "strings (Element t attrs cs) = concat (map strings cs)"

definition get_text :: "string \<Rightarrow> node \<Rightarrow> string" where
  "get_text sep n = join sep (filter (\<lambda>s. s \<noteq> []) (map strip (strings n)))"

subsection \<open>Link, paragraph and category extraction\<close>

definition is_content_div :: "node \<Rightarrow> bool" where
  "is_content_div n = (tag n = ''div'' \<and> has_class ''mw-parser-output'' n)"

definition is_wiki_anchor :: "node \<Rightarrow> bool" where
  "is_wiki_anchor n =
     (tag n = ''a'' \<and> (case attr n ''href'' of None \<Rightarrow> False | Some h \<Rightarrow> prefix ''/wiki/'' h))"

text \<open>\<open>soup.select("div.mw-parser-output a[href^='/wiki/']")\<close>.\<close>

definition select_wiki_anchors :: "soup \<Rightarrow> node list" where
  "select_wiki_anchors soup =
     concat (map (select_descendant is_content_div is_wiki_anchor False) soup)"

text \<open>
  The loop of \<open>find_internal_links\<close>. \<open>a["href"]\<close> cannot fail on a selected anchor, which
  has the attribute by the selector; the model skips an anchor without it.
\<close>

fun internal_of_anchors :: "node list \<Rightarrow> string list" where
  "internal_of_anchors [] = []"
| "internal_of_anchors (a # as) =
     (case attr a ''href'' of
        None \<Rightarrow> internal_of_anchors as
      | Some href \<Rightarrow>
          if \<not> contains '':'' href
          then (''https://en.wikipedia.org'' @ href) # internal_of_anchors as
          else internal_of_anchors as)"

definition find_internal_links :: "soup \<Rightarrow> string list" where
  "find_internal_links soup = internal_of_anchors (select_wiki_anchors soup)"

text \<open>\<open>soup.select("div.mw-parser-output > p")\<close> and the loop over it.\<close>

fun first_long_text :: "node list \<Rightarrow> string" where
  "first_long_text [] = []"
| "first_long_text (p # ps) =
     (let text = get_text '' '' p
      in if text \<noteq> [] \<and> length (split text) > 15 then text else first_long_text ps)"

definition get_first_paragraph :: "soup \<Rightarrow> string" where
  "get_first_paragraph soup =
     first_long_text
       (concat (map (select_child is_content_div (\<lambda>n. tag n = ''p'') False) soup))"

text \<open>
  \<open>soup.select_one("#mw-normal-catlinks ul")\<close> is the first selected element, if any;
  \<open>container.select("li")\<close> are the \<open>li\<close> elements below the container.
\<close>

definition get_categories :: "soup \<Rightarrow> string list" where
  "get_categories soup =
     (case concat (map (select_descendant (\<lambda>n. attr n ''id'' = Some ''mw-normal-catlinks'')
                          (\<lambda>n. tag n = ''ul'') False) soup) of
        [] \<Rightarrow> []
      | container # _ \<Rightarrow>
          map (get_text '' '')
            (concat (map (select_descendant (\<lambda>n. True) (\<lambda>n. tag n = ''li'') True)
                       (children container))))"

subsection \<open>The network\<close>

text \<open>
  The two outbound calls are the environment of the program. A reply may depend on the
  requests made so far, so the log of requests is the state threaded through every
  function that calls out. \<open>requests.get(url)\<close> either raises (no connection, timeout,
  ...) or returns a response with a status code and a body; the body is taken as already
  parsed. The search call of \<open>search_wikipedia\<close> either raises (transport failure, the
  \<open>raise_for_status\<close> of an error status, a body that is not JSON) or yields the titles of
  the hits, in order.
\<close>

datatype request = HttpGet string | ApiSearch string

datatype http_reply = ConnectionError | Response nat soup

datatype search_reply = SearchRaised | SearchHits "string list"

record network =
  http_get :: "request list \<Rightarrow> string \<Rightarrow> http_reply"
  api_search :: "request list \<Rightarrow> string \<Rightarrow> search_reply"

text \<open>
  The exceptions that leave \<open>get_soup_for_topic\<close>: the two it raises itself (no page
  found for the topic; a match that could not be fetched, with its status) and the two
  that pass through it from the calls (a fetch that raised, a search that raised).
\<close>

datatype error =
    NotFound string
  | FetchFailed string nat
  | RequestException
  | SearchException

definition replace :: "char \<Rightarrow> char \<Rightarrow> string \<Rightarrow> string" where
  "replace a b s = map (\<lambda>c. if c = a then b else c) s"

definition build_wiki_url :: "string \<Rightarrow> string" where
  "build_wiki_url topic = ''https://en.wikipedia.org/wiki/'' @ topic"

definition search_wikipedia ::
  "network \<Rightarrow> request list \<Rightarrow> string \<Rightarrow> request list \<times> (error + string option)" where
  "search_wikipedia net log term =
     (log @ [ApiSearch term],
      case api_search net log term of
        SearchRaised \<Rightarrow> Inl SearchException
      | SearchHits hits \<Rightarrow> (case hits of [] \<Rightarrow> Inr None | t # _ \<Rightarrow> Inr (Some t)))"

text \<open>\<open>if not match\<close> is true for \<open>None\<close> and for the empty title.\<close>

definition get_soup_for_topic ::
  "network \<Rightarrow> request list \<Rightarrow> string \<Rightarrow> request list \<times> (error + soup \<times> string)" where
  "get_soup_for_topic net log topic =
     (let sanitized = replace CHR '' '' CHR ''_'' topic;
          url = build_wiki_url sanitized;
          log1 = log @ [HttpGet url]
      in case http_get net log url of
           ConnectionError \<Rightarrow> (log1, Inl RequestException)
         | Response status body \<Rightarrow>
             if status = 200 then (log1, Inr (body, sanitized))
             else
               (let search_term = replace CHR ''_'' CHR '' '' topic
                in case search_wikipedia net log1 search_term of
                     (log2, Inl e) \<Rightarrow> (log2, Inl e)
                   | (log2, Inr match) \<Rightarrow>
                       (case match of
                          None \<Rightarrow> (log2, Inl (NotFound topic))
                        | Some m \<Rightarrow>
                            if m = [] then (log2, Inl (NotFound topic))
                            else
                              (let sanitized2 = replace CHR '' '' CHR ''_'' m;
                                   url2 = build_wiki_url sanitized2;
                                   log3 = log2 @ [HttpGet url2]
                               in case http_get net log2 url2 of
                                    ConnectionError \<Rightarrow> (log3, Inl RequestException)
                                  | Response status2 body2 \<Rightarrow>
                                      if status2 \<noteq> 200 then (log3, Inl (FetchFailed m status2))
                                      else (log3, Inr (body2, sanitized2))))))"

section \<open>app.py and cli.py\<close>

text \<open>\<open>xs[:n]\<close> for a Python integer \<open>n\<close>: a negative \<open>n\<close> counts from the end.\<close>

definition py_take :: "int \<Rightarrow> 'a list \<Rightarrow> 'a list" where
  "py_take n xs = (if 0 \<le> n then take (nat n) xs else take (length xs - nat (- n)) xs)"

text \<open>\<open>url.rsplit("/wiki/", 1)[-1]\<close>: what follows the last occurrence of the separator,
  the whole string when there is none.\<close>

fun after_last :: "string \<Rightarrow> string \<Rightarrow> string option" where
  "after_last sep [] = None"
| "after_last sep (c # cs) =
     (case after_last sep cs of
        Some r \<Rightarrow> Some r
      | None \<Rightarrow> if prefix sep (c # cs) then Some (drop (length sep) (c # cs)) else None)"

definition subtopic_of :: "string \<Rightarrow> string" where
  "subtopic_of u = (case after_last ''/wiki/'' u of None \<Rightarrow> u | Some r \<Rightarrow> r)"

definition wants_summary :: "string \<Rightarrow> bool" where
  "wants_summary mode = (mode = ''summaries'' \<or> mode = ''filtered'')"

text \<open>The item of app.py for a related page, and its dictionary for the main article.\<close>

definition web_item :: "string \<Rightarrow> string \<Rightarrow> string \<Rightarrow> soup \<Rightarrow> article_summary" where
  "web_item mode u subtopic page_soup =
     \<lparr>title = replace CHR ''_'' CHR '' '' subtopic,
      url = u,
      excerpt = (if wants_summary mode then clean_text (get_first_paragraph page_soup) else []),
      categories = (if wants_summary mode then get_categories page_soup else [])\<rparr>"

definition main_article_of :: "string \<Rightarrow> string \<Rightarrow> soup \<Rightarrow> article_summary" where
  "main_article_of mode actual_topic main_soup =
     \<lparr>title = replace CHR ''_'' CHR '' '' actual_topic,
      url = ''https://en.wikipedia.org/wiki/'' @ actual_topic,
      excerpt = (if wants_summary mode then clean_text (get_first_paragraph main_soup) else []),
      categories = (if wants_summary mode then get_categories main_soup else [])\<rparr>"

text \<open>The item of cli.py: the raw title, and the categories in every mode.\<close>

definition cli_item :: "string \<Rightarrow> string \<Rightarrow> string \<Rightarrow> soup \<Rightarrow> article_summary" where
  "cli_item mode u subtopic page_soup =
     \<lparr>title = subtopic,
      url = u,
      excerpt = (if wants_summary mode then clean_text (get_first_paragraph page_soup) else []),
      categories = get_categories page_soup\<rparr>"

text \<open>
  The loop over the retained links, the same in both front ends but for the item built:
  a link whose lookup raises is skipped (\<open>except Exception: continue\<close>).
\<close>

fun fetch_related ::
  "(string \<Rightarrow> string \<Rightarrow> soup \<Rightarrow> article_summary) \<Rightarrow> network \<Rightarrow> request list \<Rightarrow> string list
     \<Rightarrow> request list \<times> article_summary list" where
  "fetch_related build net log [] = (log, [])"
| "fetch_related build net log (u # us) =
     (let subtopic = subtopic_of u
      in case get_soup_for_topic net log subtopic of
           (log1, Inl e) \<Rightarrow> fetch_related build net log1 us
         | (log1, Inr (page_soup, actual)) \<Rightarrow>
             (case fetch_related build net log1 us of
                (log2, items) \<Rightarrow> (log2, build u subtopic page_soup # items)))"

text \<open>What \<open>index\<close> passes to the results template.\<close>

record pipeline_result =
  r_original :: string
  r_main :: article_summary
  r_related :: "article_summary list"
  r_mode :: string
  r_keywords :: "string list"
  r_limit :: int

text \<open>
  The POST branch of \<open>index\<close>, from the form values already read: \<open>Inl e\<close> is the form
  page rendered with the error, \<open>Inr r\<close> the results page.
\<close>

definition index ::
  "network \<Rightarrow> request list \<Rightarrow> string \<Rightarrow> string \<Rightarrow> int \<Rightarrow> string list
     \<Rightarrow> request list \<times> (error + pipeline_result)" where
  "index net log raw_topic mode limit keywords =
     (case get_soup_for_topic net log raw_topic of
        (log1, Inl e) \<Rightarrow> (log1, Inl e)
      | (log1, Inr (main_soup, actual_topic)) \<Rightarrow>
          (let main_article = main_article_of mode actual_topic main_soup;
               all_links = py_take limit (find_internal_links main_soup)
           in case fetch_related (web_item mode) net log1 all_links of
                (log2, related) \<Rightarrow>
                  (log2,
                   Inr \<lparr>r_original = replace CHR ''_'' CHR '' '' raw_topic,
                        r_main = main_article,
                        r_related =
                          (if mode = ''filtered'' \<and> keywords \<noteq> []
                           then filter_by_keyword related keywords ''or'' else related),
                        r_mode = mode, r_keywords = keywords, r_limit = limit\<rparr>)))"

text \<open>
  \<open>main\<close> of cli.py, from the parsed arguments up to the list handed to the output step:
  \<open>Inl e\<close> is the printed error, \<open>Inr (actual_topic, results)\<close> the topic that names the
  output file and the items printed or exported.
\<close>

definition main ::
  "network \<Rightarrow> request list \<Rightarrow> string \<Rightarrow> string \<Rightarrow> int \<Rightarrow> string list
     \<Rightarrow> request list \<times> (error + string \<times> article_summary list)" where
  "main net log topic mode limit keywords =
     (case get_soup_for_topic net log topic of
        (log1, Inl e) \<Rightarrow> (log1, Inl e)
      | (log1, Inr (soup, actual_topic)) \<Rightarrow>
          (let links = py_take limit (find_internal_links soup)
           in case fetch_related (cli_item mode) net log1 links of
                (log2, results) \<Rightarrow>
                  (log2,
                   Inr (actual_topic,
                        if mode = ''filtered'' \<and> keywords \<noteq> []
                        then filter_by_keyword results keywords ''or'' else results))))"

section \<open>The specification's wording, and sample data\<close>

text \<open>
  The link extraction as the specification words it: every element of the document is
  listed with its chain of ancestors, in document order; the qualifying ones are the
  anchors below a main content container whose target begins with the article prefix and
  has no colon; each yields its absolute URL.
\<close>

fun located :: "node list \<Rightarrow> node \<Rightarrow> (node list \<times> node) list" where
  "located ancestors (Text s) = []"
| "located ancestors (Element t attrs cs) =
     (ancestors, Element t attrs cs)
     # concat (map (located (Element t attrs cs # ancestors)) cs)"

definition qualifying_anchor :: "node list \<times> node \<Rightarrow> bool" where
  "qualifying_anchor p =
     (case p of (ancestors, n) \<Rightarrow>
        list_ex is_content_div ancestors \<and> tag n = ''a'' \<and>
        (case attr n ''href'' of
           None \<Rightarrow> False
         | Some h \<Rightarrow> prefix ''/wiki/'' h \<and> CHR '':'' \<notin> set h))"

definition absolute_url :: "node list \<times> node \<Rightarrow> string" where
  "absolute_url p =
     (case attr (snd p) ''href'' of None \<Rightarrow> [] | Some h \<Rightarrow> ''https://en.wikipedia.org'' @ h)"

definition extractInternalLinks_spec :: "soup \<Rightarrow> string list" where
  "extractInternalLinks_spec doc =
     map absolute_url (filter qualifying_anchor (concat (map (located []) doc)))"

fun is_search :: "request \<Rightarrow> bool" where
  "is_search (ApiSearch t) = True"
| "is_search (HttpGet u) = False"

fun succeeded :: "error + 'a \<Rightarrow> bool" where
  "succeeded (Inl e) = False"
| "succeeded (Inr r) = True"

text \<open>A topic resolves at a given history when the resolver returns a page for it.\<close>

definition resolves :: "network \<Rightarrow> request list \<Rightarrow> string \<Rightarrow> bool" where
  "resolves net log topic = succeeded (snd (get_soup_for_topic net log topic))"

text \<open>
  A small encyclopedia. The Dog page links to Wolf, to a file page, to Cat, to Fox and
  to Wolf again inside its content container, and to other targets outside it; the Cat
  page does not exist and the search finds nothing for it.
\<close>

definition dog_page :: soup where
  "dog_page =
     [Element ''html'' []
        [Element ''div'' [(''class'', ''mw-content-ltr mw-parser-output'')]
           [Element ''p'' []
              [Text ''The dog is a descendant of the '',
               Element ''a'' [(''href'', ''/wiki/Wolf'')] [Text ''wolf''], Text ''.''],
            Element ''a'' [(''href'', ''/wiki/File:Dog.jpg'')] [],
            Element ''a'' [(''href'', ''/wiki/Cat'')] [Text ''cat''],
            Element ''a'' [(''href'', ''https://example.org/wiki/Cat'')] [Text ''cat''],
            Element ''ul'' []
              [Element ''li'' [] [Element ''a'' [(''href'', ''/wiki/Fox'')] [Text ''fox'']],
               Element ''li'' [] [Element ''a'' [(''href'', ''/wiki/Wolf'')] [Text ''wolf'']]]],
         Element ''a'' [(''href'', ''/wiki/Main_Page'')] [],
         Element ''div'' [(''id'', ''mw-normal-catlinks'')]
           [Element ''ul'' []
              [Element ''li'' [] [Text '' Dogs ''], Element ''li'' [] [Text ''Pets'']]]]]"

definition wolf_page :: soup where
  "wolf_page =
     [Element ''div'' [(''class'', ''mw-parser-output'')]
        [Element ''p'' [] [Text ''Short text .''],
         Element ''p'' []
           [Text ''a b c d e f g h '', Text '', i j k l m  n o p .'']],
      Element ''div'' [(''id'', ''mw-normal-catlinks'')]
        [Element ''ul'' [] [Element ''li'' [] [Text ''Wolves'']]]]"

definition fox_page :: soup where
  "fox_page =
     [Element ''div'' [(''class'', ''mw-parser-output'')] [Element ''p'' [] [Text ''Foxes.'']],
      Element ''div'' [(''id'', ''mw-normal-catlinks'')]
        [Element ''ul'' [] [Element ''li'' [] [Text ''Foxes'']]]]"

definition sample_net :: network where
  "sample_net =
     \<lparr>http_get = (\<lambda>log u.
         if u = ''https://en.wikipedia.org/wiki/Dog'' then Response 200 dog_page
         else if u = ''https://en.wikipedia.org/wiki/Wolf'' then Response 200 wolf_page
         else if u = ''https://en.wikipedia.org/wiki/Fox'' then Response 200 fox_page
         else Response 404 []),
      api_search = (\<lambda>log t.
         if t = ''doog'' then SearchHits [''Dog'', ''Doge'']
         else if t = ''gost'' then SearchHits [''Ghost'']
         else SearchHits [])\<rparr>"

definition dog_url :: string where "dog_url = ''https://en.wikipedia.org/wiki/Dog''"
definition wolf_url :: string where "wolf_url = ''https://en.wikipedia.org/wiki/Wolf''"
definition cat_url :: string where "cat_url = ''https://en.wikipedia.org/wiki/Cat''"
definition fox_url :: string where "fox_url = ''https://en.wikipedia.org/wiki/Fox''"

text \<open>
  The items the two front ends build for the Wolf and Fox pages, without and with the
  summaries, and the page handed to the template for the topic Dog, mode \<open>links\<close>,
  limit 3.
\<close>

definition wolf_bare :: article_summary where
  "wolf_bare = \<lparr>title = ''Wolf'', url = wolf_url, excerpt = [], categories = []\<rparr>"

definition fox_bare :: article_summary where
  "fox_bare = \<lparr>title = ''Fox'', url = fox_url, excerpt = [], categories = []\<rparr>"

definition wolf_full :: article_summary where
  "wolf_full = \<lparr>title = ''Wolf'', url = wolf_url,
                 excerpt = ''a b c d e f g h, i j k l m n o p.'', categories = [''Wolves'']\<rparr>"

definition wolf_listed :: article_summary where
  "wolf_listed = \<lparr>title = ''Wolf'', url = wolf_url, excerpt = [], categories = [''Wolves'']\<rparr>"

definition fox_full :: article_summary where
  "fox_full = \<lparr>title = ''Fox'', url = fox_url, excerpt = [], categories = [''Foxes'']\<rparr>"

definition dog_bare :: article_summary where
  "dog_bare = \<lparr>title = ''Dog'', url = dog_url, excerpt = [], categories = []\<rparr>"

definition dog_full :: article_summary where
  "dog_full = \<lparr>title = ''Dog'', url = dog_url, excerpt = [], categories = [''Dogs'', ''Pets'']\<rparr>"

definition links_run :: pipeline_result where
  "links_run =
     \<lparr>r_original = ''Dog'', r_main = dog_bare, r_related = [wolf_bare, fox_bare],
      r_mode = ''links'', r_keywords = [], r_limit = 3\<rparr>"

definition filtered_run :: pipeline_result where
  "filtered_run =
     \<lparr>r_original = ''Dog'', r_main = dog_full, r_related = [wolf_full, wolf_full],
      r_mode = ''filtered'', r_keywords = [''wolves''], r_limit = 5\<rparr>"

text \<open>A network on which every fetch raises.\<close>

definition down_net :: network where
  "down_net = \<lparr>http_get = (\<lambda>log u. ConnectionError),
               api_search = (\<lambda>log t. SearchHits [''Dog''])\<rparr>"

section \<open>Shapes of text used in the proofs\<close>

text \<open>
  \<open>ws_ok\<close>: every whitespace character is a space and is not followed by whitespace.
  \<open>trimmed\<close>: no whitespace at either end. \<open>no_space_punct\<close>: no space directly
  before a punctuation mark.
\<close>

fun ws_ok :: "string \<Rightarrow> bool" where
  "ws_ok [] = True"
| "ws_ok (c # cs) =
     ((isspace c \<longrightarrow> c = CHR '' '' \<and> (case cs of [] \<Rightarrow> True | d # _ \<Rightarrow> \<not> isspace d)) \<and> ws_ok cs)"

definition trimmed :: "string \<Rightarrow> bool" where
  "trimmed s = (case s of [] \<Rightarrow> True | c # _ \<Rightarrow> \<not> isspace c \<and> \<not> isspace (last s))"

fun no_space_punct :: "string \<Rightarrow> bool" where
  "no_space_punct [] = True"
| "no_space_punct (c # cs) =
     ((case cs of [] \<Rightarrow> True | d # _ \<Rightarrow> \<not> (c = CHR '' '' \<and> ispunct d)) \<and> no_space_punct cs)"

definition tidy :: "string \<Rightarrow> bool" where
  "tidy s = (ws_ok s \<and> (s \<noteq> [] \<longrightarrow> \<not> isspace (last s)))"

definition sample_text :: string where
  "sample_text = ''  Hello   world , ok  !  ''"

definition sample_item :: article_summary where
  "sample_item = \<lparr>title = ''Dog'', url = ''https://en.wikipedia.org/wiki/Dog'',
                   excerpt = '''', categories = []\<rparr>"

section \<open>Properties of the text normalizer\<close>

lemma isspace_space: "isspace CHR '' ''"
  by (simp add: isspace_def)

lemma punct_not_space: "ispunct c \<Longrightarrow> \<not> isspace c"
  by (auto simp: ispunct_def isspace_def)

lemma sub_ws_space_head:
  "(case s of [] \<Rightarrow> True | c # _ \<Rightarrow> \<not> isspace c) \<Longrightarrow>
   (case sub_ws_space s of [] \<Rightarrow> True | c # _ \<Rightarrow> \<not> isspace c)"
  by (cases s) auto

lemma dropWhile_head: "case dropWhile P xs of [] \<Rightarrow> True | c # _ \<Rightarrow> \<not> P c"
  by (induction xs) auto

lemma ws_ok_sub_ws_space: "ws_ok (sub_ws_space s)"
proof (induction s rule: sub_ws_space.induct)
  case 1
  show ?case by simp
next
  case (2 c cs)
  show ?case
  proof (cases "isspace c")
    case True
    have "case sub_ws_space (dropWhile isspace cs) of [] \<Rightarrow> True | d # _ \<Rightarrow> \<not> isspace d"
      by (rule sub_ws_space_head) (rule dropWhile_head)
    with True 2 show ?thesis by simp
  next
    case False
    with 2 show ?thesis by simp
  qed
qed

lemma ws_ok_append: "ws_ok (a @ b) \<Longrightarrow> ws_ok a \<and> ws_ok b"
proof (induction a)
  case Nil
  then show ?case by simp
next
  case (Cons x a)
  then show ?case by (cases a) (auto split: list.splits)
qed

lemma ws_ok_strip: "ws_ok s \<Longrightarrow> ws_ok (strip s)"
proof -
  assume ok: "ws_ok s"
  let ?t = "dropWhile isspace s"
  have "s = takeWhile isspace s @ ?t" by simp
  with ok have t: "ws_ok ?t" by (metis ws_ok_append)
  have "?t = strip s @ rev (takeWhile isspace (rev ?t))"
    unfolding strip_def by (metis rev_append rev_rev_ident takeWhile_dropWhile_id)
  with t show ?thesis by (metis ws_ok_append)
qed

lemma trimmed_strip: "trimmed (strip s)"
proof (cases "strip s")
  case Nil
  then show ?thesis by (simp add: trimmed_def)
next
  case (Cons c u)
  let ?t = "dropWhile isspace s"
  let ?r = "dropWhile isspace (rev ?t)"
  have r: "?r = rev (strip s)" by (simp add: strip_def)
  with Cons have "?r \<noteq> []" by auto
  then have "\<not> isspace (hd ?r)" by (rule hd_dropWhile)
  with r Cons have l: "\<not> isspace (last (strip s))"
    by (metis hd_rev)
  have pre: "?t = strip s @ rev (takeWhile isspace (rev ?t))"
    unfolding strip_def by (metis rev_append rev_rev_ident takeWhile_dropWhile_id)
  with Cons have "?t \<noteq> []" by (metis Nil_is_append_conv list.distinct(1))
  then have "\<not> isspace (hd ?t)" by (rule hd_dropWhile)
  moreover from pre Cons have "hd ?t = c" by (metis hd_append2 list.distinct(1) list.sel(1))
  ultimately show ?thesis using l Cons by (simp add: trimmed_def)
qed

lemma sub_ws_space_id: "ws_ok s \<Longrightarrow> sub_ws_space s = s"
proof (induction s)
  case Nil
  show ?case by simp
next
  case (Cons c cs)
  then show ?case by (cases cs) auto
qed

lemma strip_id: "trimmed s \<Longrightarrow> strip s = s"
proof (cases s)
  case Nil
  then show ?thesis by (simp add: strip_def)
next
  case (Cons c cs)
  assume "trimmed s"
  with Cons have a: "\<not> isspace c" and b: "\<not> isspace (last s)"
    by (simp_all add: trimmed_def)
  from a Cons have "dropWhile isspace s = s" by simp
  moreover from b Cons have "dropWhile isspace (rev s) = rev s"
    by (metis dropWhile.simps(2) hd_rev list.exhaust_sel list.distinct(1) rev_is_Nil_conv)
  ultimately show ?thesis by (simp add: strip_def)
qed

lemma ws_ok_space_step:
  assumes "ws_ok (c # cs)" and "isspace c" and "\<not> isspace (last (c # cs))"
  shows "c = CHR '' '' \<and> (\<exists>p rest. cs = p # rest \<and> \<not> isspace p) \<and> dropWhile isspace cs = cs"
  using assms by (cases cs) auto

lemma last_ok_tl: "\<not> isspace (last (c # cs)) \<Longrightarrow> cs \<noteq> [] \<Longrightarrow> \<not> isspace (last cs)"
  by simp

lemma sub_ws_before_punct_Nil: "(sub_ws_before_punct s = []) = (s = [])"
  by (cases s) (auto split: list.splits)

lemma tidy_Nil: "tidy []"
  by (simp add: tidy_def)

lemma tidy_tl: "tidy (c # cs) \<Longrightarrow> tidy cs"
  by (cases cs) (simp_all add: tidy_def)

lemma tidy_nonspace_Cons: "\<not> isspace c \<Longrightarrow> tidy cs \<Longrightarrow> tidy (c # cs)"
  by (simp add: tidy_def)

lemma tidy_space_Cons:
  assumes "\<not> isspace p" and "tidy (p # r)"
  shows "tidy (CHR '' '' # p # r)"
proof -
  from assms(2) have ok: "ws_ok (p # r)" and l: "\<not> isspace (last (p # r))"
    unfolding tidy_def by blast+
  from ok assms(1) have "ws_ok (CHR '' '' # p # r)"
    by (simp only: ws_ok.simps list.case) blast
  moreover have "last (CHR '' '' # p # r) = last (p # r)"
    by (rule last_ConsR) simp
  ultimately show ?thesis
    unfolding tidy_def using l by (simp only: list.distinct simp_thms)
qed

lemma tidy_space:
  assumes "tidy (c # cs)" and "isspace c"
  shows "c = CHR '' '' \<and> (\<exists>p rest. cs = p # rest \<and> \<not> isspace p) \<and> dropWhile isspace cs = cs"
proof -
  from assms(1) have "ws_ok (c # cs)" and "\<not> isspace (last (c # cs))"
    unfolding tidy_def by blast+
  then show ?thesis using assms(2) ws_ok_space_step by blast
qed

lemma sub_ws_before_punct_nonspace:
  "\<not> isspace c \<Longrightarrow> sub_ws_before_punct (c # cs) = c # sub_ws_before_punct cs"
  by simp

lemma sub_ws_before_punct_tidy:
  "tidy s \<Longrightarrow> tidy (sub_ws_before_punct s) \<and> no_space_punct (sub_ws_before_punct s)"
proof (induction s rule: length_induct)
  case (1 s)
  show ?case
  proof (cases s)
    case Nil
    then show ?thesis by (simp add: tidy_Nil)
  next
    case (Cons c cs)
    with 1 have tcs: "tidy cs" by (metis tidy_tl)
    from 1 Cons have ih: "tidy (sub_ws_before_punct cs) \<and> no_space_punct (sub_ws_before_punct cs)"
      using tcs by simp
    show ?thesis
    proof (cases "isspace c")
      case False
      then have c: "c \<noteq> CHR '' ''" using isspace_space by auto
      from False have "sub_ws_before_punct s = c # sub_ws_before_punct cs"
        by (simp add: Cons)
      with ih False c show ?thesis
        by (simp add: tidy_nonspace_Cons split: list.splits)
    next
      case True
      with 1(2) Cons obtain p rest where
        sp: "c = CHR '' ''" and cs: "cs = p # rest" and p: "\<not> isspace p"
        and dw: "dropWhile isspace cs = cs"
        using tidy_space [of c cs] by auto
      show ?thesis
      proof (cases "ispunct p")
        case punct: True
        from tcs cs have "tidy rest" by (metis tidy_tl)
        with 1(1) Cons cs have
          ihr: "tidy (sub_ws_before_punct rest) \<and> no_space_punct (sub_ws_before_punct rest)"
          by simp
        from True punct dw cs have "sub_ws_before_punct s = p # sub_ws_before_punct rest"
          by (simp add: Cons)
        moreover from p have "p \<noteq> CHR '' ''" using isspace_space by auto
        ultimately show ?thesis using ihr p
          by (simp add: tidy_nonspace_Cons split: list.splits)
      next
        case nopunct: False
        from True nopunct dw cs p have
          "sub_ws_before_punct s = CHR '' '' # p # sub_ws_before_punct rest"
          by (simp add: Cons sp)
        moreover from ih cs p have
          "tidy (p # sub_ws_before_punct rest) \<and> no_space_punct (p # sub_ws_before_punct rest)"
          by simp
        ultimately show ?thesis using p nopunct
          by (simp add: tidy_space_Cons)
      qed
    qed
  qed
qed

lemma sub_ws_before_punct_id:
  "tidy s \<Longrightarrow> no_space_punct s \<Longrightarrow> sub_ws_before_punct s = s"
proof (induction s)
  case Nil
  show ?case by simp
next
  case (Cons c cs)
  then have ih: "sub_ws_before_punct cs = cs"
    by (metis tidy_tl no_space_punct.simps(2))
  show ?case
  proof (cases "isspace c")
    case False
    with ih show ?thesis by simp
  next
    case True
    with Cons.prems(1) obtain p rest where
      sp: "c = CHR '' ''" and cs: "cs = p # rest" and dw: "dropWhile isspace cs = cs"
      using tidy_space [of c cs] by auto
    from Cons.prems(2) sp cs have "\<not> ispunct p" by simp
    with True dw cs ih show ?thesis by simp
  qed
qed

lemma sub_ws_before_punct_trimmed:
  "trimmed s \<Longrightarrow> tidy s \<Longrightarrow> trimmed (sub_ws_before_punct s)"
proof (cases s)
  case Nil
  then show ?thesis by (simp add: trimmed_def)
next
  case (Cons c cs)
  assume "trimmed s" and t: "tidy s"
  with Cons have c: "\<not> isspace c" by (simp add: trimmed_def)
  then have eq: "sub_ws_before_punct s = c # sub_ws_before_punct cs"
    by (simp add: Cons)
  from t have "tidy (sub_ws_before_punct s)"
    by (simp add: sub_ws_before_punct_tidy)
  then have "\<not> isspace (last (sub_ws_before_punct s))"
    unfolding tidy_def eq by blast
  with c show ?thesis
    unfolding trimmed_def eq by simp
qed

lemma trimmed_tidy: "ws_ok s \<Longrightarrow> trimmed s \<Longrightarrow> tidy s"
  by (cases s) (simp_all add: tidy_def trimmed_def)

lemma clean_text_form:
  "tidy (clean_text x) \<and> trimmed (clean_text x) \<and> no_space_punct (clean_text x)"
proof -
  let ?s = "strip (sub_ws_space x)"
  have "ws_ok ?s" by (simp add: ws_ok_strip ws_ok_sub_ws_space)
  moreover have tr: "trimmed ?s" by (rule trimmed_strip)
  ultimately have t: "tidy ?s" by (rule trimmed_tidy)
  from t tr show ?thesis
    unfolding clean_text_def
    by (simp add: sub_ws_before_punct_tidy sub_ws_before_punct_trimmed)
qed

lemma clean_text_fixed:
  assumes "tidy s" and "trimmed s" and "no_space_punct s"
  shows "clean_text s = s"
proof -
  from assms(1) have "sub_ws_space s = s"
    by (simp add: tidy_def sub_ws_space_id)
  moreover from assms(2) have "strip s = s" by (rule strip_id)
  moreover from assms(1,3) have "sub_ws_before_punct s = s" by (rule sub_ws_before_punct_id)
  ultimately show ?thesis by (simp add: clean_text_def)
qed

lemma ws_ok_no_double_space: "ws_ok s \<Longrightarrow> \<not> contains [CHR '' '', CHR '' ''] s"
proof (induction s)
  case Nil
  show ?case by simp
next
  case (Cons c cs)
  then show ?case using isspace_space by (cases cs) auto
qed

lemma no_space_punct_contains:
  "no_space_punct s \<Longrightarrow> ispunct p \<Longrightarrow> \<not> contains [CHR '' '', p] s"
proof (induction s)
  case Nil
  show ?case by simp
next
  case (Cons c cs)
  then show ?case by (cases cs) auto
qed

text \<open>
  C7: \<open>clean_text\<close> is idempotent, and its output never contains two consecutive
  space characters nor a space immediately before one of the marks \<open>. , ! ? ; :\<close>.
\<close>

theorem clean_text_idempotent:
  "clean_text (clean_text x) = clean_text x \<and>
   \<not> contains [CHR '' '', CHR '' ''] (clean_text x) \<and>
   (\<forall>p \<in> set ''.,!?;:''. \<not> contains [CHR '' '', p] (clean_text x))"
proof (intro conjI ballI)
  show "clean_text (clean_text x) = clean_text x"
    using clean_text_form [of x] by (simp add: clean_text_fixed)
  show "\<not> contains [CHR '' '', CHR '' ''] (clean_text x)"
    using clean_text_form [of x] by (simp add: tidy_def ws_ok_no_double_space)
next
  fix p
  assume "p \<in> set ''.,!?;:''"
  then have "ispunct p" by (simp add: ispunct_def)
  then show "\<not> contains [CHR '' '', p] (clean_text x)"
    using clean_text_form [of x] by (simp add: no_space_punct_contains)
qed

theorem clean_text_idempotent_witness:
  "clean_text sample_text = ''Hello world, ok!'' \<and>
   clean_text (clean_text sample_text) = clean_text sample_text \<and>
   \<not> contains [CHR '' '', CHR '' ''] (clean_text sample_text) \<and>
   CHR '','' \<in> set ''.,!?;:'' \<and>
   \<not> contains [CHR '' '', CHR '',''] (clean_text sample_text)"
proof -
  have run: "clean_text sample_text = ''Hello world, ok!''"
    by code_simp
  have mem: "CHR '','' \<in> set ''.,!?;:''" by simp
  note inst = clean_text_idempotent [of sample_text]
  from inst have a: "clean_text (clean_text sample_text) = clean_text sample_text" by (rule conjunct1)
  from inst have b: "\<not> contains [CHR '' '', CHR '' ''] (clean_text sample_text)"
    by (elim conjE)
  from inst mem have c: "\<not> contains [CHR '' '', CHR '',''] (clean_text sample_text)"
    by (elim conjE) (rule bspec)
  show ?thesis
    by (intro conjI) (rule run, rule a, rule b, rule mem, rule c)
qed

section \<open>Properties of the keyword filter\<close>

lemma matches_empty_keywords: "matches [] mode = (\<lambda>item. mode = ''and'')"
  by (rule ext) (simp add: matches_def)

lemma matches_and_imp_or:
  assumes "keywords \<noteq> []" and "matches keywords ''and'' item"
  shows "matches keywords ''or'' item"
proof -
  from assms(1) obtain k ks where ks: "keywords = k # ks"
    by (cases "keywords") auto
  from assms(2) have "contains (lower k) (text_blob item)"
    by (simp add: matches_def ks)
  then show ?thesis
    by (simp add: matches_def ks)
qed

lemma matches_other_mode:
  assumes "mode \<noteq> ''and''"
  shows "matches keywords mode = matches keywords ''or''"
proof (rule ext)
  fix item
  from assms show "matches keywords mode item = matches keywords ''or'' item"
    unfolding matches_def by simp
qed

text \<open>
  C2 (as the code has it): with an empty keywords sequence the filter returns the whole
  input only when the mode is exactly \<open>and\<close>; in every other mode, the default \<open>or\<close>
  included, it returns the empty sequence.
\<close>

theorem filter_empty_keywords:
  "filter_by_keyword items [] mode = (if mode = ''and'' then items else [])"
  by (simp add: filter_by_keyword_def matches_empty_keywords)

text \<open>C2 as stated fails: in the default mode one item and no keywords give no items.\<close>

theorem filter_empty_keywords_counterexample:
  "filter_by_keyword [sample_item] [] ''or'' \<noteq> [sample_item]"
  by (simp add: filter_by_keyword_def matches_empty_keywords)

text \<open>
  C3 (as the code has it): for a non-empty keywords sequence, every item retained in
  \<open>and\<close> mode is also retained in \<open>or\<close> mode on the same inputs.
\<close>

theorem filter_and_subset_or:
  "keywords \<noteq> [] \<Longrightarrow>
     set (filter_by_keyword items keywords ''and'')
       \<subseteq> set (filter_by_keyword items keywords ''or'')"
proof
  fix item
  assume ne: "keywords \<noteq> []"
    and "item \<in> set (filter_by_keyword items keywords ''and'')"
  then have "item \<in> set items" and "matches keywords ''and'' item"
    by (simp_all add: filter_by_keyword_def)
  with ne show "item \<in> set (filter_by_keyword items keywords ''or'')"
    by (simp add: filter_by_keyword_def matches_and_imp_or)
qed

theorem filter_and_subset_or_witness:
  "[''dog''] \<noteq> [] \<and>
   set (filter_by_keyword [sample_item] [''dog''] ''and'')
     \<subseteq> set (filter_by_keyword [sample_item] [''dog''] ''or'') \<and>
   filter_by_keyword [sample_item] [''dog''] ''and'' = [sample_item]"
proof -
  have ne: "[''dog''] \<noteq> ([] :: string list)" by simp
  have run: "filter_by_keyword [sample_item] [''dog''] ''and'' = [sample_item]"
    by code_simp
  have sub: "set (filter_by_keyword [sample_item] [''dog''] ''and'')
     \<subseteq> set (filter_by_keyword [sample_item] [''dog''] ''or'')"
    by (rule filter_and_subset_or [OF ne])
  show ?thesis
    by (intro conjI) (rule ne, rule sub, rule run)
qed

text \<open>C3 as stated fails on an empty keywords sequence: \<open>and\<close> keeps the item, \<open>or\<close> drops it.\<close>

theorem filter_and_subset_or_counterexample:
  "\<not> set (filter_by_keyword [sample_item] [] ''and'')
       \<subseteq> set (filter_by_keyword [sample_item] [] ''or'')"
  by (simp add: filter_by_keyword_def matches_empty_keywords)

text \<open>
  C10: any mode string other than the exact lowercase \<open>and\<close> gives the result of \<open>or\<close>
  mode; the filter has no error result, so no mode is rejected.
\<close>

theorem filter_mode_default_or:
  "mode \<noteq> ''and'' \<Longrightarrow>
     filter_by_keyword items keywords mode = filter_by_keyword items keywords ''or''"
  unfolding filter_by_keyword_def by (rule arg_cong [OF matches_other_mode])

theorem filter_mode_default_or_witness:
  "''AND'' \<noteq> ''and'' \<and>
   filter_by_keyword [sample_item] [''dog'', ''cat''] ''AND''
     = filter_by_keyword [sample_item] [''dog'', ''cat''] ''or'' \<and>
   filter_by_keyword [sample_item] [''dog'', ''cat''] ''AND'' = [sample_item] \<and>
   filter_by_keyword [sample_item] [''dog'', ''cat''] ''and'' = []"
proof -
  have ne: "''AND'' \<noteq> ''and''" by simp
  have r1: "filter_by_keyword [sample_item] [''dog'', ''cat''] ''AND'' = [sample_item]"
    by code_simp
  have r2: "filter_by_keyword [sample_item] [''dog'', ''cat''] ''and'' = []"
    by code_simp
  have same: "filter_by_keyword [sample_item] [''dog'', ''cat''] ''AND''
     = filter_by_keyword [sample_item] [''dog'', ''cat''] ''or''"
    by (rule filter_mode_default_or [OF ne])
  show ?thesis
    by (intro conjI) (rule ne, rule same, rule r1, rule r2)
qed

section \<open>Properties of the link extraction\<close>

lemma contains_single: "contains [c] s = (c \<in> set s)"
  by (induction s) auto

lemma select_descendant_located:
  "select_descendant anc tgt (list_ex anc A) n
     = map snd (filter (\<lambda>p. list_ex anc (fst p) \<and> tgt (snd p)) (located A n))"
proof (induction n arbitrary: A)
  case (Text s)
  show ?case by simp
next
  case (Element t attrs cs)
  let ?e = "Element t attrs cs"
  have kids: "map (select_descendant anc tgt (list_ex anc A \<or> anc ?e)) cs
      = map (\<lambda>c. map snd (filter (\<lambda>p. list_ex anc (fst p) \<and> tgt (snd p)) (located (?e # A) c))) cs"
  proof (rule map_cong [OF refl])
    fix c assume "c \<in> set cs"
    then have "select_descendant anc tgt (list_ex anc (?e # A)) c
        = map snd (filter (\<lambda>p. list_ex anc (fst p) \<and> tgt (snd p)) (located (?e # A) c))"
      by (rule Element.IH)
    moreover have "list_ex anc (?e # A) = (list_ex anc A \<or> anc ?e)" by auto
    ultimately show "select_descendant anc tgt (list_ex anc A \<or> anc ?e) c
        = map snd (filter (\<lambda>p. list_ex anc (fst p) \<and> tgt (snd p)) (located (?e # A) c))"
      by simp
  qed
  show ?case
    by (simp add: kids map_concat filter_concat comp_def)
qed

lemma select_wiki_anchors_located:
  "select_wiki_anchors doc
     = map snd (filter (\<lambda>p. list_ex is_content_div (fst p) \<and> is_wiki_anchor (snd p))
                  (concat (map (located []) doc)))"
proof -
  have "select_descendant is_content_div is_wiki_anchor False
      = (\<lambda>n. map snd (filter (\<lambda>p. list_ex is_content_div (fst p) \<and> is_wiki_anchor (snd p)) (located [] n)))"
    using select_descendant_located [of is_content_div is_wiki_anchor "[]"] by (intro ext) simp
  then show ?thesis
    by (simp add: select_wiki_anchors_def map_concat filter_concat comp_def)
qed

lemma internal_of_anchors_filter:
  "internal_of_anchors (map snd (filter (\<lambda>p. list_ex is_content_div (fst p) \<and> is_wiki_anchor (snd p)) L))
     = map absolute_url (filter qualifying_anchor L)"
proof (induction L)
  case Nil
  show ?case by simp
next
  case (Cons p L)
  obtain A n where p: "p = (A, n)" by (cases p)
  show ?case
    using Cons
    by (simp add: p qualifying_anchor_def absolute_url_def is_wiki_anchor_def contains_single
          split: option.splits)
qed

lemma find_internal_links_spec: "find_internal_links doc = extractInternalLinks_spec doc"
  by (simp add: find_internal_links_def extractInternalLinks_spec_def
        select_wiki_anchors_located internal_of_anchors_filter)

lemma qualifying_url:
  assumes "qualifying_anchor p"
  shows "\<exists>rest. absolute_url p = ''https://en.wikipedia.org/wiki/'' @ rest \<and> CHR '':'' \<notin> set rest"
proof -
  obtain A n where p: "p = (A, n)" by (cases p)
  from assms p obtain h where h: "attr n ''href'' = Some h"
    and pre: "prefix ''/wiki/'' h" and nc: "CHR '':'' \<notin> set h"
    by (auto simp: qualifying_anchor_def split: option.splits)
  from pre obtain rest where r: "h = ''/wiki/'' @ rest" by (auto simp: prefix_def)
  with nc have "CHR '':'' \<notin> set rest" by simp
  moreover from h r p have "absolute_url p = ''https://en.wikipedia.org/wiki/'' @ rest"
    by (simp add: absolute_url_def)
  ultimately show ?thesis by blast
qed

text \<open>
  C8: \<open>find_internal_links\<close> returns exactly the anchors below the main content
  container whose target begins with \<open>/wiki/\<close> and contains no colon, as absolute URLs
  in document order; a target that occurs several times in the markup occurs as often in
  the result (the result has one entry per qualifying anchor); and no returned URL has a
  colon after the \<open>/wiki/\<close> prefix.
\<close>

theorem find_internal_links_exact:
  "find_internal_links doc = extractInternalLinks_spec doc \<and>
   length (find_internal_links doc)
     = length (filter qualifying_anchor (concat (map (located []) doc))) \<and>
   (\<forall>u \<in> set (find_internal_links doc).
      \<exists>rest. u = ''https://en.wikipedia.org/wiki/'' @ rest \<and> CHR '':'' \<notin> set rest)"
proof (intro conjI ballI)
  show "find_internal_links doc = extractInternalLinks_spec doc"
    by (rule find_internal_links_spec)
  show "length (find_internal_links doc)
     = length (filter qualifying_anchor (concat (map (located []) doc)))"
    by (simp add: find_internal_links_spec extractInternalLinks_spec_def)
next
  fix u assume "u \<in> set (find_internal_links doc)"
  then obtain p where "qualifying_anchor p" and "u = absolute_url p"
    by (auto simp: find_internal_links_spec extractInternalLinks_spec_def)
  then show "\<exists>rest. u = ''https://en.wikipedia.org/wiki/'' @ rest \<and> CHR '':'' \<notin> set rest"
    using qualifying_url by blast
qed

section \<open>Properties of the resolver\<close>

lemma get_soup_direct_raises:
  "http_get net log (build_wiki_url (replace CHR '' '' CHR ''_'' topic)) = ConnectionError \<Longrightarrow>
   get_soup_for_topic net log topic
     = (log @ [HttpGet (build_wiki_url (replace CHR '' '' CHR ''_'' topic))], Inl RequestException)"
  by (simp add: get_soup_for_topic_def Let_def)

lemma get_soup_fallback_cases:
  assumes "http_get net log (build_wiki_url (replace CHR '' '' CHR ''_'' topic)) = Response status body"
    and "status \<noteq> 200"
    and "log1 = log @ [HttpGet (build_wiki_url (replace CHR '' '' CHR ''_'' topic))]"
    and "log2 = log1 @ [ApiSearch (replace CHR ''_'' CHR '' '' topic)]"
  shows "get_soup_for_topic net log topic =
     (case api_search net log1 (replace CHR ''_'' CHR '' '' topic) of
        SearchRaised \<Rightarrow> (log2, Inl SearchException)
      | SearchHits hits \<Rightarrow>
          (case hits of
             [] \<Rightarrow> (log2, Inl (NotFound topic))
           | m # ms \<Rightarrow>
               if m = [] then (log2, Inl (NotFound topic))
               else
                 (log2 @ [HttpGet (build_wiki_url (replace CHR '' '' CHR ''_'' m))],
                  case http_get net log2 (build_wiki_url (replace CHR '' '' CHR ''_'' m)) of
                    ConnectionError \<Rightarrow> Inl RequestException
                  | Response status2 body2 \<Rightarrow>
                      if status2 = 200 then Inr (body2, replace CHR '' '' CHR ''_'' m)
                      else Inl (FetchFailed m status2))))"
  using assms
  by (simp add: get_soup_for_topic_def search_wikipedia_def Let_def
        split: search_reply.splits list.splits http_reply.splits)

text \<open>
  C4 (as the code has it): when the direct fetch of the sanitized topic returns a response
  whose status is not 200, the resolver issues exactly one search query, for the topic with
  underscores turned into spaces. If the search yields no hit, or a first hit with an empty
  title, it fails with \<open>NotFound\<close> naming the original topic. Otherwise it fetches the
  sanitized title of the first hit, once: a response with status 200 is the result, any other
  status fails with \<open>FetchFailed\<close> naming the match and the status, and nothing further
  is tried. A fetch that raises (either of the two) and a search that raises are not
  answered by a fallback: the exception leaves the resolver as it is.
\<close>

theorem get_soup_for_topic_fallback:
  assumes "url1 = build_wiki_url (replace CHR '' '' CHR ''_'' topic)"
    and "query = replace CHR ''_'' CHR '' '' topic"
    and "log1 = log @ [HttpGet url1]"
    and "log2 = log1 @ [ApiSearch query]"
  shows
   "(http_get net log url1 = ConnectionError \<longrightarrow>
       get_soup_for_topic net log topic = (log1, Inl RequestException)) \<and>
    (\<forall>status body. http_get net log url1 = Response status body \<and> status \<noteq> 200 \<longrightarrow>
       take (length log2) (fst (get_soup_for_topic net log topic)) = log2 \<and>
       length (filter is_search (drop (length log) (fst (get_soup_for_topic net log topic)))) = 1 \<and>
       length (drop (length log) (fst (get_soup_for_topic net log topic))) \<le> 3 \<and>
       (api_search net log1 query = SearchRaised \<longrightarrow>
          get_soup_for_topic net log topic = (log2, Inl SearchException)) \<and>
       (api_search net log1 query = SearchHits [] \<longrightarrow>
          get_soup_for_topic net log topic = (log2, Inl (NotFound topic))) \<and>
       (\<forall>ms. api_search net log1 query = SearchHits ([] # ms) \<longrightarrow>
          get_soup_for_topic net log topic = (log2, Inl (NotFound topic))) \<and>
       (\<forall>m ms url2. api_search net log1 query = SearchHits (m # ms) \<and> m \<noteq> [] \<and>
            url2 = build_wiki_url (replace CHR '' '' CHR ''_'' m) \<longrightarrow>
          (http_get net log2 url2 = ConnectionError \<longrightarrow>
             get_soup_for_topic net log topic = (log2 @ [HttpGet url2], Inl RequestException)) \<and>
          (\<forall>status2 body2. http_get net log2 url2 = Response status2 body2 \<longrightarrow>
             get_soup_for_topic net log topic =
               (log2 @ [HttpGet url2],
                if status2 = 200 then Inr (body2, replace CHR '' '' CHR ''_'' m)
                else Inl (FetchFailed m status2)))))"
proof (intro conjI impI allI)
  assume "http_get net log url1 = ConnectionError"
  with assms show "get_soup_for_topic net log topic = (log1, Inl RequestException)"
    by (simp add: get_soup_direct_raises)
next
  fix status body
  assume d: "http_get net log url1 = Response status body \<and> status \<noteq> 200"
  note c = get_soup_fallback_cases [of net log topic status body log1 log2]
  from d assms show "take (length log2) (fst (get_soup_for_topic net log topic)) = log2"
    by (simp add: c split: search_reply.splits list.splits)
  from d assms show
    "length (filter is_search (drop (length log) (fst (get_soup_for_topic net log topic)))) = 1"
    by (simp add: c split: search_reply.splits list.splits)
  from d assms show "length (drop (length log) (fst (get_soup_for_topic net log topic))) \<le> 3"
    by (simp add: c split: search_reply.splits list.splits)
  {
    assume "api_search net log1 query = SearchRaised"
    with d assms show "get_soup_for_topic net log topic = (log2, Inl SearchException)"
      by (simp add: c)
  }
  {
    assume "api_search net log1 query = SearchHits []"
    with d assms show "get_soup_for_topic net log topic = (log2, Inl (NotFound topic))"
      by (simp add: c)
  }
  {
    fix ms
    assume "api_search net log1 query = SearchHits ([] # ms)"
    with d assms show "get_soup_for_topic net log topic = (log2, Inl (NotFound topic))"
      by (simp add: c)
  }
  {
    fix m ms url2
    assume h: "api_search net log1 query = SearchHits (m # ms) \<and> m \<noteq> [] \<and>
            url2 = build_wiki_url (replace CHR '' '' CHR ''_'' m)"
    {
      assume "http_get net log2 url2 = ConnectionError"
      with h d assms show
        "get_soup_for_topic net log topic = (log2 @ [HttpGet url2], Inl RequestException)"
        by (simp add: c)
    }
    {
      fix status2 body2
      assume "http_get net log2 url2 = Response status2 body2"
      with h d assms show "get_soup_for_topic net log topic =
               (log2 @ [HttpGet url2],
                if status2 = 200 then Inr (body2, replace CHR '' '' CHR ''_'' m)
                else Inl (FetchFailed m status2))"
        by (simp add: c)
    }
  }
qed

section \<open>Properties of the related-links loop\<close>

lemma fetch_related_skip:
  "get_soup_for_topic net log (subtopic_of u) = (log1, Inl e) \<Longrightarrow>
   fetch_related build net log (u # us) = fetch_related build net log1 us"
  by simp

lemma fetch_related_keep:
  "get_soup_for_topic net log (subtopic_of u) = (log1, Inr (page, a)) \<Longrightarrow>
   fetch_related build net log1 us = (log2, items) \<Longrightarrow>
   fetch_related build net log (u # us) = (log2, build u (subtopic_of u) page # items)"
  by simp

lemma fetch_related_append:
  "fetch_related build net log us = (log1, before) \<Longrightarrow>
   fetch_related build net log1 vs = (log2, after) \<Longrightarrow>
   fetch_related build net log (us @ vs) = (log2, before @ after)"
proof (induction us arbitrary: log before)
  case Nil
  then show ?case by simp
next
  case (Cons u us)
  obtain lg res where g: "get_soup_for_topic net log (subtopic_of u) = (lg, res)"
    by (cases "get_soup_for_topic net log (subtopic_of u)")
  show ?case
  proof (cases res)
    case (Inl e)
    with g Cons.prems(1) have "fetch_related build net lg us = (log1, before)"
      by simp
    from Cons.IH [OF this Cons.prems(2)] g Inl show ?thesis
      by simp
  next
    case (Inr pa)
    obtain page a where pa: "pa = (page, a)" by (cases pa)
    obtain lg2 items where r: "fetch_related build net lg us = (lg2, items)"
      by (cases "fetch_related build net lg us")
    with g Inr pa Cons.prems(1) have l: "lg2 = log1"
      and b: "before = build u (subtopic_of u) page # items"
      by simp_all
    from r l have "fetch_related build net lg us = (log1, items)" by simp
    from Cons.IH [OF this Cons.prems(2)] g Inr pa b show ?thesis
      by simp
  qed
qed

lemma fetch_related_drop_failed:
  assumes "fetch_related build net log us = (log1, before)"
    and "get_soup_for_topic net log1 (subtopic_of u) = (log2, Inl e)"
    and "fetch_related build net log2 vs = (log3, after)"
  shows "fetch_related build net log (us @ u # vs) = (log3, before @ after)"
proof -
  from assms(2,3) have "fetch_related build net log1 (u # vs) = (log3, after)"
    by (simp add: fetch_related_skip)
  with assms(1) show ?thesis by (rule fetch_related_append)
qed

lemma fetch_related_split:
  assumes "fetch_related build net log us = (log1, before)"
  shows "snd (fetch_related build net log (us @ u # vs)) =
     before
     @ (case snd (get_soup_for_topic net log1 (subtopic_of u)) of
          Inl e \<Rightarrow> []
        | Inr pa \<Rightarrow> [build u (subtopic_of u) (fst pa)])
     @ snd (fetch_related build net (fst (get_soup_for_topic net log1 (subtopic_of u))) vs)"
proof -
  obtain lg res where g: "get_soup_for_topic net log1 (subtopic_of u) = (lg, res)"
    by (cases "get_soup_for_topic net log1 (subtopic_of u)")
  obtain lg3 rest where r: "fetch_related build net lg vs = (lg3, rest)"
    by (cases "fetch_related build net lg vs")
  show ?thesis
  proof (cases res)
    case (Inl e)
    with g have "get_soup_for_topic net log1 (subtopic_of u) = (lg, Inl e)" by simp
    from fetch_related_drop_failed [OF assms this r]
    have "fetch_related build net log (us @ u # vs) = (lg3, before @ rest)" .
    with g Inl r show ?thesis by simp
  next
    case (Inr pa)
    obtain page a where pa: "pa = (page, a)" by (cases pa)
    from g Inr pa have "get_soup_for_topic net log1 (subtopic_of u) = (lg, Inr (page, a))"
      by simp
    from fetch_related_keep [OF this r]
    have "fetch_related build net log1 (u # vs) = (lg3, build u (subtopic_of u) page # rest)" .
    from fetch_related_append [OF assms this]
    have "fetch_related build net log (us @ u # vs)
        = (lg3, before @ build u (subtopic_of u) page # rest)" .
    with g Inr pa r show ?thesis by simp
  qed
qed

lemma fetch_related_urls:
  assumes build_url: "\<And>u s p. url (build u s p) = u"
  shows "subseq (map url (snd (fetch_related build net log us))) us"
proof (induction us arbitrary: log)
  case Nil
  show ?case by simp
next
  case (Cons u us)
  obtain lg res where g: "get_soup_for_topic net log (subtopic_of u) = (lg, res)"
    by (cases "get_soup_for_topic net log (subtopic_of u)")
  show ?case
  proof (cases res)
    case (Inl e)
    with g have eq: "fetch_related build net log (u # us) = fetch_related build net lg us"
      by simp
    from Cons [of lg] have "subseq (map url (snd (fetch_related build net lg us))) (u # us)"
      by (rule list_emb_Cons)
    then show ?thesis by (simp only: eq)
  next
    case (Inr pa)
    obtain page a where pa: "pa = (page, a)" by (cases pa)
    obtain lg2 items where r: "fetch_related build net lg us = (lg2, items)"
      by (cases "fetch_related build net lg us")
    from g Inr pa r have eq: "fetch_related build net log (u # us)
        = (lg2, build u (subtopic_of u) page # items)"
      by (simp add: fetch_related_keep)
    from Cons [of lg] r have "subseq (map url items) us" by simp
    then have "subseq (map url (build u (subtopic_of u) page # items)) (u # us)"
      by (simp add: build_url)
    then show ?thesis by (simp only: eq snd_conv)
  qed
qed

lemma fetch_related_length: "length (snd (fetch_related build net log us)) \<le> length us"
proof (induction us arbitrary: log)
  case Nil
  show ?case by simp
next
  case (Cons u us)
  obtain lg res where g: "get_soup_for_topic net log (subtopic_of u) = (lg, res)"
    by (cases "get_soup_for_topic net log (subtopic_of u)")
  from Cons [of lg] g show ?case
    by (cases res) (auto split: prod.splits)
qed

lemma fetch_related_all_resolve:
  assumes build_url: "\<And>u s p. url (build u s p) = u"
    and "\<forall>u \<in> set us. \<forall>lg. resolves net lg (subtopic_of u)"
  shows "map url (snd (fetch_related build net log us)) = us"
  using assms(2)
proof (induction us arbitrary: log)
  case Nil
  show ?case by simp
next
  case (Cons u us)
  obtain lg res where g: "get_soup_for_topic net log (subtopic_of u) = (lg, res)"
    by (cases "get_soup_for_topic net log (subtopic_of u)")
  from Cons.prems have "resolves net log (subtopic_of u)" by simp
  with g obtain page a where res: "res = Inr (page, a)"
    by (cases res) (auto simp: resolves_def)
  from Cons.prems have "\<forall>u \<in> set us. \<forall>lg. resolves net lg (subtopic_of u)" by simp
  then have ih: "map url (snd (fetch_related build net lg us)) = us"
    by (rule Cons.IH)
  obtain lg2 items where r: "fetch_related build net lg us = (lg2, items)"
    by (cases "fetch_related build net lg us")
  from g res r have "fetch_related build net log (u # us)
      = (lg2, build u (subtopic_of u) page # items)"
    by (simp add: fetch_related_keep)
  moreover from ih r have "map url items = us" by simp
  ultimately show ?case by (simp add: build_url)
qed

lemma fetch_related_items:
  "i \<in> set (snd (fetch_related build net log us)) \<Longrightarrow>
   \<exists>u lg lg' page a. u \<in> set us \<and>
      get_soup_for_topic net lg (subtopic_of u) = (lg', Inr (page, a)) \<and>
      i = build u (subtopic_of u) page"
proof (induction us arbitrary: log)
  case Nil
  then show ?case by simp
next
  case (Cons u us)
  obtain lg res where g: "get_soup_for_topic net log (subtopic_of u) = (lg, res)"
    by (cases "get_soup_for_topic net log (subtopic_of u)")
  have later: ?case if "i \<in> set (snd (fetch_related build net lg us))"
  proof -
    from Cons.IH [OF that] obtain u' l l' page a where
      m: "u' \<in> set us"
      and f: "get_soup_for_topic net l (subtopic_of u') = (l', Inr (page, a))"
      and e: "i = build u' (subtopic_of u') page"
      by blast
    from m have "u' \<in> set (u # us)" by simp
    with f e show ?thesis by blast
  qed
  show ?case
  proof (cases res)
    case (Inl e)
    with g Cons.prems have "i \<in> set (snd (fetch_related build net lg us))" by simp
    then show ?thesis by (rule later)
  next
    case (Inr pa)
    obtain page a where pa: "pa = (page, a)" by (cases pa)
    obtain lg2 items where r: "fetch_related build net lg us = (lg2, items)"
      by (cases "fetch_related build net lg us")
    from g Inr pa r have "fetch_related build net log (u # us)
        = (lg2, build u (subtopic_of u) page # items)"
      by (simp add: fetch_related_keep)
    with Cons.prems r
    have "i = build u (subtopic_of u) page \<or> i \<in> set (snd (fetch_related build net lg us))"
      by auto
    then show ?thesis
    proof
      assume e: "i = build u (subtopic_of u) page"
      have "u \<in> set (u # us)" by simp
      with g Inr pa e show ?thesis by blast
    next
      assume "i \<in> set (snd (fetch_related build net lg us))"
      then show ?thesis by (rule later)
    qed
  qed
qed

lemma py_take_nonneg: "0 \<le> n \<Longrightarrow> py_take n xs = take (nat n) xs"
  by (simp add: py_take_def)

lemma web_item_url: "url (web_item mode u s p) = u"
  by (simp add: web_item_def)

lemma cli_item_url: "url (cli_item mode u s p) = u"
  by (simp add: cli_item_def)

lemma index_resolved:
  assumes "get_soup_for_topic net log raw_topic = (log1, Inr (main_soup, actual_topic))"
    and "fetch_related (web_item mode) net log1 (py_take limit (find_internal_links main_soup))
           = (log2, related)"
  shows "index net log raw_topic mode limit keywords =
     (log2,
      Inr \<lparr>r_original = replace CHR ''_'' CHR '' '' raw_topic,
           r_main = main_article_of mode actual_topic main_soup,
           r_related = (if mode = ''filtered'' \<and> keywords \<noteq> []
                        then filter_by_keyword related keywords ''or'' else related),
           r_mode = mode, r_keywords = keywords, r_limit = limit\<rparr>)"
  using assms by (simp add: index_def)

lemma index_failed:
  "get_soup_for_topic net log raw_topic = (log1, Inl e) \<Longrightarrow>
   index net log raw_topic mode limit keywords = (log1, Inl e)"
  by (simp add: index_def)

lemma main_resolved:
  assumes "get_soup_for_topic net log topic = (log1, Inr (soup, actual_topic))"
    and "fetch_related (cli_item mode) net log1 (py_take limit (find_internal_links soup))
           = (log2, results)"
  shows "main net log topic mode limit keywords =
     (log2,
      Inr (actual_topic,
           if mode = ''filtered'' \<and> keywords \<noteq> []
           then filter_by_keyword results keywords ''or'' else results))"
  using assms by (simp add: main_def)

lemma main_failed:
  "get_soup_for_topic net log topic = (log1, Inl e) \<Longrightarrow>
   main net log topic mode limit keywords = (log1, Inl e)"
  by (simp add: main_def)

lemma filter_by_keyword_subseq: "subseq (filter_by_keyword items keywords mode) items"
  by (simp add: filter_by_keyword_def)

section \<open>The sample encyclopedia, evaluated\<close>

lemma sample_links: "find_internal_links dog_page = [wolf_url, cat_url, fox_url, wolf_url]"
  unfolding wolf_url_def cat_url_def fox_url_def by code_simp

lemma sample_subtopics:
  "subtopic_of wolf_url = ''Wolf''" "subtopic_of cat_url = ''Cat''" "subtopic_of fox_url = ''Fox''"
  unfolding wolf_url_def cat_url_def fox_url_def by code_simp+

lemma sample_get_dog:
  "get_soup_for_topic sample_net lg ''Dog'' = (lg @ [HttpGet dog_url], Inr (dog_page, ''Dog''))"
  by (simp add: get_soup_for_topic_def sample_net_def replace_def build_wiki_url_def Let_def
        dog_url_def)

lemma sample_get_wolf:
  "get_soup_for_topic sample_net lg ''Wolf'' = (lg @ [HttpGet wolf_url], Inr (wolf_page, ''Wolf''))"
  by (simp add: get_soup_for_topic_def sample_net_def replace_def build_wiki_url_def Let_def
        wolf_url_def)

lemma sample_get_fox:
  "get_soup_for_topic sample_net lg ''Fox'' = (lg @ [HttpGet fox_url], Inr (fox_page, ''Fox''))"
  by (simp add: get_soup_for_topic_def sample_net_def replace_def build_wiki_url_def Let_def
        fox_url_def)

lemma sample_get_cat:
  "get_soup_for_topic sample_net lg ''Cat''
     = (lg @ [HttpGet cat_url, ApiSearch ''Cat''], Inl (NotFound ''Cat''))"
  by (simp add: get_soup_for_topic_def sample_net_def replace_def build_wiki_url_def Let_def
        search_wikipedia_def cat_url_def)

lemma sample_categories:
  "get_categories dog_page = [''Dogs'', ''Pets'']"
  "get_categories wolf_page = [''Wolves'']"
  "get_categories fox_page = [''Foxes'']"
  by code_simp+

lemma sample_paragraphs:
  "get_first_paragraph dog_page = []"
  "get_first_paragraph wolf_page = ''a b c d e f g h , i j k l m  n o p .''"
  "get_first_paragraph fox_page = []"
  by code_simp+

lemma sample_excerpts:
  "clean_text [] = []"
  "clean_text ''a b c d e f g h , i j k l m  n o p .'' = ''a b c d e f g h, i j k l m n o p.''"
  by code_simp+

lemma sample_related:
  "fetch_related build sample_net lg [wolf_url, cat_url, fox_url]
     = (lg @ [HttpGet wolf_url, HttpGet cat_url, ApiSearch ''Cat'', HttpGet fox_url],
        [build wolf_url ''Wolf'' wolf_page, build fox_url ''Fox'' fox_page])"
  by (simp add: sample_subtopics sample_get_wolf sample_get_cat sample_get_fox Let_def)

lemma sample_related_all:
  "fetch_related build sample_net lg [wolf_url, cat_url, fox_url, wolf_url]
     = (lg @ [HttpGet wolf_url, HttpGet cat_url, ApiSearch ''Cat'', HttpGet fox_url,
              HttpGet wolf_url],
        [build wolf_url ''Wolf'' wolf_page, build fox_url ''Fox'' fox_page,
         build wolf_url ''Wolf'' wolf_page])"
  by (simp add: sample_subtopics sample_get_wolf sample_get_cat sample_get_fox Let_def)

lemma sample_web_items:
  "web_item ''links'' wolf_url ''Wolf'' wolf_page = wolf_bare"
  "web_item ''links'' fox_url ''Fox'' fox_page = fox_bare"
  "web_item ''filtered'' wolf_url ''Wolf'' wolf_page = wolf_full"
  "web_item ''filtered'' fox_url ''Fox'' fox_page = fox_full"
  by (simp_all add: web_item_def wants_summary_def replace_def sample_paragraphs
        sample_excerpts sample_categories wolf_bare_def fox_bare_def wolf_full_def fox_full_def)

lemma sample_cli_items:
  "cli_item ''links'' wolf_url ''Wolf'' wolf_page = wolf_listed"
  "cli_item ''links'' fox_url ''Fox'' fox_page = fox_full"
  "cli_item ''filtered'' wolf_url ''Wolf'' wolf_page = wolf_full"
  "cli_item ''filtered'' fox_url ''Fox'' fox_page = fox_full"
  by (simp_all add: cli_item_def wants_summary_def sample_paragraphs
        sample_excerpts sample_categories wolf_listed_def wolf_full_def fox_full_def)

lemma sample_main_articles:
  "main_article_of ''links'' ''Dog'' dog_page = dog_bare"
  "main_article_of ''filtered'' ''Dog'' dog_page = dog_full"
  by (simp_all add: main_article_of_def wants_summary_def replace_def sample_paragraphs
        sample_excerpts sample_categories dog_bare_def dog_full_def dog_url_def)

lemma sample_take:
  "py_take 3 (find_internal_links dog_page) = [wolf_url, cat_url, fox_url]"
  "py_take 5 (find_internal_links dog_page) = [wolf_url, cat_url, fox_url, wolf_url]"
  "py_take 1 (find_internal_links dog_page) = [wolf_url]"
  by (simp_all add: py_take_def sample_links)

lemma sample_filter:
  "filter_by_keyword [wolf_full, fox_full, wolf_full] [''wolves''] ''or'' = [wolf_full, wolf_full]"
  "filter_by_keyword [dog_full] [''wolves''] ''or'' = []"
  by code_simp+

lemma sample_filter_dog:
  "filter_by_keyword [wolf_full, fox_full, wolf_full] [''dog''] ''or'' = []"
  by code_simp

section \<open>The resolver and the link extraction on the sample\<close>

theorem get_soup_for_topic_fallback_witness:
  "get_soup_for_topic sample_net [] ''gost''
     = ([HttpGet ''https://en.wikipedia.org/wiki/gost'', ApiSearch ''gost'',
         HttpGet ''https://en.wikipedia.org/wiki/Ghost''],
        Inl (FetchFailed ''Ghost'' 404)) \<and>
   get_soup_for_topic sample_net [] ''Cat''
     = ([HttpGet ''https://en.wikipedia.org/wiki/Cat'', ApiSearch ''Cat''],
        Inl (NotFound ''Cat'')) \<and>
   length (filter is_search (drop (length ([] :: request list))
       (fst (get_soup_for_topic sample_net [] ''gost'')))) = 1"
proof -
  let ?u = "''https://en.wikipedia.org/wiki/gost''"
  let ?c = "''https://en.wikipedia.org/wiki/Cat''"
  have u: "?u = build_wiki_url (replace CHR '' '' CHR ''_'' ''gost'')"
    and q: "''gost'' = replace CHR ''_'' CHR '' '' ''gost''"
    and c: "?c = build_wiki_url (replace CHR '' '' CHR ''_'' ''Cat'')"
    and qc: "''Cat'' = replace CHR ''_'' CHR '' '' ''Cat''"
    by (simp_all add: build_wiki_url_def replace_def)
  have direct: "http_get sample_net [] ?u = Response 404 [] \<and> (404::nat) \<noteq> 200"
    by (simp add: sample_net_def)
  have hits: "api_search sample_net ([] @ [HttpGet ?u]) ''gost'' = SearchHits (''Ghost'' # []) \<and>
      ''Ghost'' \<noteq> [] \<and>
      ''https://en.wikipedia.org/wiki/Ghost'' = build_wiki_url (replace CHR '' '' CHR ''_'' ''Ghost'')"
    by (simp add: sample_net_def build_wiki_url_def replace_def)
  have second: "http_get sample_net (([] @ [HttpGet ?u]) @ [ApiSearch ''gost''])
      ''https://en.wikipedia.org/wiki/Ghost'' = Response 404 []"
    by (simp add: sample_net_def)
  note inst = get_soup_for_topic_fallback [OF u q refl refl, of sample_net]
  note fallback = inst [THEN conjunct2, rule_format, OF direct]
  note matched = fallback [THEN conjunct2, THEN conjunct2, THEN conjunct2, THEN conjunct2,
      THEN conjunct2, THEN conjunct2, rule_format, OF hits]
  note a = matched [THEN conjunct2, rule_format, OF second]
  note b = fallback [THEN conjunct2, THEN conjunct1]
  have directc: "http_get sample_net [] ?c = Response 404 [] \<and> (404::nat) \<noteq> 200"
    by (simp add: sample_net_def)
  have nohits: "api_search sample_net ([] @ [HttpGet ?c]) ''Cat'' = SearchHits []"
    by (simp add: sample_net_def)
  note instc = get_soup_for_topic_fallback [OF c qc refl refl, of sample_net]
  note fallbackc = instc [THEN conjunct2, rule_format, OF directc]
  note d = fallbackc [THEN conjunct2, THEN conjunct2, THEN conjunct2, THEN conjunct2,
      THEN conjunct1, rule_format, OF nohits]
  from a b d show ?thesis by simp
qed

text \<open>
  C4 as stated fails when the direct fetch raises: no search is made and the error is
  neither \<open>NotFound\<close> nor \<open>FetchFailed\<close>.
\<close>

theorem get_soup_for_topic_fallback_counterexample:
  "get_soup_for_topic down_net [] ''doog''
     = ([HttpGet ''https://en.wikipedia.org/wiki/doog''], Inl RequestException)"
  by (simp add: get_soup_for_topic_def down_net_def replace_def build_wiki_url_def Let_def)

theorem find_internal_links_exact_witness:
  "find_internal_links dog_page = [wolf_url, cat_url, fox_url, wolf_url] \<and>
   extractInternalLinks_spec dog_page = [wolf_url, cat_url, fox_url, wolf_url] \<and>
   length (filter qualifying_anchor (concat (map (located []) dog_page))) = 4 \<and>
   (\<exists>rest. wolf_url = ''https://en.wikipedia.org/wiki/'' @ rest \<and> CHR '':'' \<notin> set rest)"
proof -
  note inst = find_internal_links_exact [of dog_page]
  have m: "wolf_url \<in> set (find_internal_links dog_page)"
    by (simp add: sample_links)
  have "extractInternalLinks_spec dog_page = find_internal_links dog_page"
    by (rule inst [THEN conjunct1, symmetric])
  moreover
  have "length (filter qualifying_anchor (concat (map (located []) dog_page)))
      = length (find_internal_links dog_page)"
    by (rule inst [THEN conjunct2, THEN conjunct1, symmetric])
  moreover
  have "\<exists>rest. wolf_url = ''https://en.wikipedia.org/wiki/'' @ rest \<and> CHR '':'' \<notin> set rest"
    by (rule inst [THEN conjunct2, THEN conjunct2, THEN bspec, OF m])
  ultimately show ?thesis by (simp add: sample_links)
qed

section \<open>Properties of the two front ends\<close>

lemma fetch_related_pair:
  "fetch_related build net log us
     = (fst (fetch_related build net log us), snd (fetch_related build net log us))"
  by simp

text \<open>
  C5: a failure of the main topic's resolution ends the request with that error, in both
  front ends. When the main topic resolves the request succeeds whatever happens to the
  related links; a related link whose resolution fails adds no item, and the links before
  and after it are processed in order, each from the history the previous one left: the
  related sequence is the items of the links before it followed by the items of the links
  after it.
\<close>

theorem related_failure_is_not_fatal:
  "(get_soup_for_topic net log topic = (log0, Inl e) \<longrightarrow>
      index net log topic mode limit kws = (log0, Inl e) \<and>
      main net log topic mode limit kws = (log0, Inl e)) \<and>
   (get_soup_for_topic net log topic = (log0, Inr (soup, actual)) \<longrightarrow>
      succeeded (snd (index net log topic mode limit kws)) \<and>
      succeeded (snd (main net log topic mode limit kws)) \<and>
      (py_take limit (find_internal_links soup) = us @ u # vs \<and>
       get_soup_for_topic net log1 (subtopic_of u) = (log2, Inl e') \<longrightarrow>
         (fetch_related (web_item mode) net log0 us = (log1, before) \<and>
          fetch_related (web_item mode) net log2 vs = (log3, after) \<longrightarrow>
            index net log topic mode limit kws =
              (log3,
               Inr \<lparr>r_original = replace CHR ''_'' CHR '' '' topic,
                    r_main = main_article_of mode actual soup,
                    r_related = (if mode = ''filtered'' \<and> kws \<noteq> []
                                 then filter_by_keyword (before @ after) kws ''or''
                                 else before @ after),
                    r_mode = mode, r_keywords = kws, r_limit = limit\<rparr>)) \<and>
         (fetch_related (cli_item mode) net log0 us = (log1, before) \<and>
          fetch_related (cli_item mode) net log2 vs = (log3, after) \<longrightarrow>
            main net log topic mode limit kws =
              (log3,
               Inr (actual,
                    if mode = ''filtered'' \<and> kws \<noteq> []
                    then filter_by_keyword (before @ after) kws ''or''
                    else before @ after)))))"
proof (intro conjI impI)
  assume "get_soup_for_topic net log topic = (log0, Inl e)"
  then show "index net log topic mode limit kws = (log0, Inl e)"
    and "main net log topic mode limit kws = (log0, Inl e)"
    by (simp_all add: index_failed main_failed)
next
  assume g: "get_soup_for_topic net log topic = (log0, Inr (soup, actual))"
  show "succeeded (snd (index net log topic mode limit kws))"
    by (simp add: index_resolved [OF g fetch_related_pair])
  show "succeeded (snd (main net log topic mode limit kws))"
    by (simp add: main_resolved [OF g fetch_related_pair])
  assume l: "py_take limit (find_internal_links soup) = us @ u # vs \<and>
       get_soup_for_topic net log1 (subtopic_of u) = (log2, Inl e')"
  {
    assume "fetch_related (web_item mode) net log0 us = (log1, before) \<and>
          fetch_related (web_item mode) net log2 vs = (log3, after)"
    with l have "fetch_related (web_item mode) net log0
        (py_take limit (find_internal_links soup)) = (log3, before @ after)"
      by (simp add: fetch_related_drop_failed)
    then show "index net log topic mode limit kws =
              (log3,
               Inr \<lparr>r_original = replace CHR ''_'' CHR '' '' topic,
                    r_main = main_article_of mode actual soup,
                    r_related = (if mode = ''filtered'' \<and> kws \<noteq> []
                                 then filter_by_keyword (before @ after) kws ''or''
                                 else before @ after),
                    r_mode = mode, r_keywords = kws, r_limit = limit\<rparr>)"
      by (rule index_resolved [OF g])
  }
  {
    assume "fetch_related (cli_item mode) net log0 us = (log1, before) \<and>
          fetch_related (cli_item mode) net log2 vs = (log3, after)"
    with l have "fetch_related (cli_item mode) net log0
        (py_take limit (find_internal_links soup)) = (log3, before @ after)"
      by (simp add: fetch_related_drop_failed)
    then show "main net log topic mode limit kws =
              (log3,
               Inr (actual,
                    if mode = ''filtered'' \<and> kws \<noteq> []
                    then filter_by_keyword (before @ after) kws ''or''
                    else before @ after))"
      by (rule main_resolved [OF g])
  }
qed

text \<open>
  C6 (as the code has it): for a non-negative limit L the links attempted are the first L
  qualifying links of the main document, in document order (all of them when there are
  fewer). The related sequence before filtering has at most L items, and its URLs are a
  subsequence of the attempted links: one item for each attempted link that resolved, in
  order. When every attempted link resolves its URLs are exactly the attempted links, and
  with at least L qualifying links its length is exactly L. For each attempted link, the
  sequence is the items of the links before it, then the item of the link itself if it
  resolves at the history reached then and nothing if it fails, then the items of the
  links after it.
\<close>

theorem related_follows_first_links:
  assumes "0 \<le> limit"
    and "get_soup_for_topic net log topic = (log0, Inr (soup, actual))"
    and "links = take (nat limit) (find_internal_links soup)"
    and "web = fetch_related (web_item mode) net log0 links"
    and "cli = fetch_related (cli_item mode) net log0 links"
  shows
   "index net log topic mode limit kws =
      (fst web,
       Inr \<lparr>r_original = replace CHR ''_'' CHR '' '' topic,
            r_main = main_article_of mode actual soup,
            r_related = (if mode = ''filtered'' \<and> kws \<noteq> []
                         then filter_by_keyword (snd web) kws ''or'' else snd web),
            r_mode = mode, r_keywords = kws, r_limit = limit\<rparr>) \<and>
    main net log topic mode limit kws =
      (fst cli,
       Inr (actual,
            if mode = ''filtered'' \<and> kws \<noteq> []
            then filter_by_keyword (snd cli) kws ''or'' else snd cli)) \<and>
    length (snd web) \<le> nat limit \<and> length (snd cli) \<le> nat limit \<and>
    subseq (map url (snd web)) links \<and> subseq (map url (snd cli)) links \<and>
    ((\<forall>u \<in> set links. \<forall>lg. resolves net lg (subtopic_of u)) \<longrightarrow>
       map url (snd web) = links \<and> map url (snd cli) = links \<and>
       (nat limit \<le> length (find_internal_links soup) \<longrightarrow>
          length (snd web) = nat limit \<and> length (snd cli) = nat limit)) \<and>
    (\<forall>us u vs log1 before.
       links = us @ u # vs \<and> fetch_related (web_item mode) net log0 us = (log1, before) \<longrightarrow>
       snd web =
         before
         @ (case snd (get_soup_for_topic net log1 (subtopic_of u)) of
              Inl e \<Rightarrow> []
            | Inr pa \<Rightarrow> [web_item mode u (subtopic_of u) (fst pa)])
         @ snd (fetch_related (web_item mode) net
                  (fst (get_soup_for_topic net log1 (subtopic_of u))) vs)) \<and>
    (\<forall>us u vs log1 before.
       links = us @ u # vs \<and> fetch_related (cli_item mode) net log0 us = (log1, before) \<longrightarrow>
       snd cli =
         before
         @ (case snd (get_soup_for_topic net log1 (subtopic_of u)) of
              Inl e \<Rightarrow> []
            | Inr pa \<Rightarrow> [cli_item mode u (subtopic_of u) (fst pa)])
         @ snd (fetch_related (cli_item mode) net
                  (fst (get_soup_for_topic net log1 (subtopic_of u))) vs))"
proof -
  from assms(1,3) have links: "py_take limit (find_internal_links soup) = links"
    by (simp add: py_take_nonneg)
  have len: "length links \<le> nat limit"
    by (simp add: assms(3))
  have "fetch_related (web_item mode) net log0 (py_take limit (find_internal_links soup))
      = (fst web, snd web)"
    by (simp add: links assms(4))
  note a = index_resolved [OF assms(2) this]
  have "fetch_related (cli_item mode) net log0 (py_take limit (find_internal_links soup))
      = (fst cli, snd cli)"
    by (simp add: links assms(5))
  note b = main_resolved [OF assms(2) this]
  have "length (snd web) \<le> length links"
    unfolding assms(4) by (rule fetch_related_length)
  with len have c: "length (snd web) \<le> nat limit" by simp
  have "length (snd cli) \<le> length links"
    unfolding assms(5) by (rule fetch_related_length)
  with len have d: "length (snd cli) \<le> nat limit" by simp
  have e: "subseq (map url (snd web)) links"
    unfolding assms(4) by (rule fetch_related_urls) (rule web_item_url)
  have f: "subseq (map url (snd cli)) links"
    unfolding assms(5) by (rule fetch_related_urls) (rule cli_item_url)
  have g: "map url (snd web) = links \<and> map url (snd cli) = links \<and>
       (nat limit \<le> length (find_internal_links soup) \<longrightarrow>
          length (snd web) = nat limit \<and> length (snd cli) = nat limit)"
    if r: "\<forall>u \<in> set links. \<forall>lg. resolves net lg (subtopic_of u)"
  proof -
    have w: "map url (snd web) = links"
      unfolding assms(4) using web_item_url r by (rule fetch_related_all_resolve)
    have c: "map url (snd cli) = links"
      unfolding assms(5) using cli_item_url r by (rule fetch_related_all_resolve)
    have "length (snd web) = nat limit \<and> length (snd cli) = nat limit"
      if "nat limit \<le> length (find_internal_links soup)"
    proof -
      from that have "length links = nat limit" by (simp add: assms(3))
      moreover from w have "length (snd web) = length links" by (metis length_map)
      moreover from c have "length (snd cli) = length links" by (metis length_map)
      ultimately show ?thesis by simp
    qed
    with w c show ?thesis by blast
  qed
  have h: "snd web =
         before
         @ (case snd (get_soup_for_topic net log1 (subtopic_of u)) of
              Inl e \<Rightarrow> []
            | Inr pa \<Rightarrow> [web_item mode u (subtopic_of u) (fst pa)])
         @ snd (fetch_related (web_item mode) net
                  (fst (get_soup_for_topic net log1 (subtopic_of u))) vs)"
    if "links = us @ u # vs \<and> fetch_related (web_item mode) net log0 us = (log1, before)"
    for us u vs log1 before
  proof -
    from that have l: "links = us @ u # vs"
      and p: "fetch_related (web_item mode) net log0 us = (log1, before)" by blast+
    show ?thesis unfolding assms(4) l by (rule fetch_related_split [OF p])
  qed
  have k: "snd cli =
         before
         @ (case snd (get_soup_for_topic net log1 (subtopic_of u)) of
              Inl e \<Rightarrow> []
            | Inr pa \<Rightarrow> [cli_item mode u (subtopic_of u) (fst pa)])
         @ snd (fetch_related (cli_item mode) net
                  (fst (get_soup_for_topic net log1 (subtopic_of u))) vs)"
    if "links = us @ u # vs \<and> fetch_related (cli_item mode) net log0 us = (log1, before)"
    for us u vs log1 before
  proof -
    from that have l: "links = us @ u # vs"
      and p: "fetch_related (cli_item mode) net log0 us = (log1, before)" by blast+
    show ?thesis unfolding assms(5) l by (rule fetch_related_split [OF p])
  qed
  show ?thesis
  proof (intro conjI allI impI)
    show "index net log topic mode limit kws =
      (fst web,
       Inr \<lparr>r_original = replace CHR ''_'' CHR '' '' topic,
            r_main = main_article_of mode actual soup,
            r_related = (if mode = ''filtered'' \<and> kws \<noteq> []
                         then filter_by_keyword (snd web) kws ''or'' else snd web),
            r_mode = mode, r_keywords = kws, r_limit = limit\<rparr>)"
      by (rule a)
    show "main net log topic mode limit kws =
      (fst cli,
       Inr (actual,
            if mode = ''filtered'' \<and> kws \<noteq> []
            then filter_by_keyword (snd cli) kws ''or'' else snd cli))"
      by (rule b)
    show "length (snd web) \<le> nat limit" by (rule c)
    show "length (snd cli) \<le> nat limit" by (rule d)
    show "subseq (map url (snd web)) links" by (rule e)
    show "subseq (map url (snd cli)) links" by (rule f)
  next
    assume r: "\<forall>u \<in> set links. \<forall>lg. resolves net lg (subtopic_of u)"
    from g [OF r] show "map url (snd web) = links" and "map url (snd cli) = links"
      by blast+
    assume "nat limit \<le> length (find_internal_links soup)"
    with g [OF r] show "length (snd web) = nat limit" and "length (snd cli) = nat limit"
      by blast+
  next
    fix us u vs log1 before
    assume "links = us @ u # vs \<and> fetch_related (web_item mode) net log0 us = (log1, before)"
    then show "snd web =
         before
         @ (case snd (get_soup_for_topic net log1 (subtopic_of u)) of
              Inl e \<Rightarrow> []
            | Inr pa \<Rightarrow> [web_item mode u (subtopic_of u) (fst pa)])
         @ snd (fetch_related (web_item mode) net
                  (fst (get_soup_for_topic net log1 (subtopic_of u))) vs)"
      by (rule h)
  next
    fix us u vs log1 before
    assume "links = us @ u # vs \<and> fetch_related (cli_item mode) net log0 us = (log1, before)"
    then show "snd cli =
         before
         @ (case snd (get_soup_for_topic net log1 (subtopic_of u)) of
              Inl e \<Rightarrow> []
            | Inr pa \<Rightarrow> [cli_item mode u (subtopic_of u) (fst pa)])
         @ snd (fetch_related (cli_item mode) net
                  (fst (get_soup_for_topic net log1 (subtopic_of u))) vs)"
      by (rule k)
  qed
qed

text \<open>
  C9 (as the code has it): in mode \<open>filtered\<close> with non-empty keywords the web front
  end (\<open>index\<close>) applies the keyword filter to the related sequence only: the main
  article in its result is the summary built from the main document, whatever the
  keywords, and the related items that remain are items of the unfiltered sequence,
  unchanged and in their order. The command-line front end (\<open>main\<close>) builds no summary
  of the main article: its result is the resolved topic and the related items alone,
  filtered the same way.
\<close>

theorem filter_applies_to_related_only:
  assumes "mode = ''filtered''" and "kws \<noteq> []"
    and "get_soup_for_topic net log topic = (log0, Inr (soup, actual))"
    and "web = fetch_related (web_item mode) net log0 (py_take limit (find_internal_links soup))"
    and "cli = fetch_related (cli_item mode) net log0 (py_take limit (find_internal_links soup))"
  shows
   "index net log topic mode limit kws =
      (fst web,
       Inr \<lparr>r_original = replace CHR ''_'' CHR '' '' topic,
            r_main = main_article_of mode actual soup,
            r_related = filter_by_keyword (snd web) kws ''or'',
            r_mode = mode, r_keywords = kws, r_limit = limit\<rparr>) \<and>
    subseq (filter_by_keyword (snd web) kws ''or'') (snd web) \<and>
    main net log topic mode limit kws =
      (fst cli, Inr (actual, filter_by_keyword (snd cli) kws ''or'')) \<and>
    subseq (filter_by_keyword (snd cli) kws ''or'') (snd cli)"
proof -
  have "fetch_related (web_item mode) net log0 (py_take limit (find_internal_links soup))
      = (fst web, snd web)"
    by (simp add: assms(4))
  from index_resolved [OF assms(3) this] assms(1,2)
  have a: "index net log topic mode limit kws =
      (fst web,
       Inr \<lparr>r_original = replace CHR ''_'' CHR '' '' topic,
            r_main = main_article_of mode actual soup,
            r_related = filter_by_keyword (snd web) kws ''or'',
            r_mode = mode, r_keywords = kws, r_limit = limit\<rparr>)"
    by simp
  have "fetch_related (cli_item mode) net log0 (py_take limit (find_internal_links soup))
      = (fst cli, snd cli)"
    by (simp add: assms(5))
  from main_resolved [OF assms(3) this] assms(1,2)
  have b: "main net log topic mode limit kws =
      (fst cli, Inr (actual, filter_by_keyword (snd cli) kws ''or''))"
    by simp
  from a b show ?thesis
    by (simp only: filter_by_keyword_subseq simp_thms)
qed

theorem related_failure_is_not_fatal_witness:
  "index sample_net [] ''Dog'' ''links'' 3 []
     = ([HttpGet dog_url, HttpGet wolf_url, HttpGet cat_url, ApiSearch ''Cat'', HttpGet fox_url],
        Inr links_run) \<and>
   succeeded (snd (index sample_net [] ''Dog'' ''links'' 3 [])) \<and>
   main sample_net [] ''Dog'' ''links'' 3 []
     = ([HttpGet dog_url, HttpGet wolf_url, HttpGet cat_url, ApiSearch ''Cat'', HttpGet fox_url],
        Inr (''Dog'', [wolf_listed, fox_full])) \<and>
   index sample_net [] ''Cat'' ''links'' 3 []
     = ([HttpGet cat_url, ApiSearch ''Cat''], Inl (NotFound ''Cat'')) \<and>
   main sample_net [] ''Cat'' ''links'' 3 []
     = ([HttpGet cat_url, ApiSearch ''Cat''], Inl (NotFound ''Cat''))"
proof -
  let ?l0 = "[HttpGet dog_url]"
  let ?l1 = "[HttpGet dog_url, HttpGet wolf_url]"
  let ?l2 = "[HttpGet dog_url, HttpGet wolf_url, HttpGet cat_url, ApiSearch ''Cat'']"
  let ?l3 = "[HttpGet dog_url, HttpGet wolf_url, HttpGet cat_url, ApiSearch ''Cat'', HttpGet fox_url]"
  have g: "get_soup_for_topic sample_net [] ''Dog'' = (?l0, Inr (dog_page, ''Dog''))"
    using sample_get_dog [of "[]"] by simp
  have l: "py_take 3 (find_internal_links dog_page) = [wolf_url] @ cat_url # [fox_url] \<and>
      get_soup_for_topic sample_net ?l1 (subtopic_of cat_url) = (?l2, Inl (NotFound ''Cat''))"
    using sample_get_cat [of ?l1] by (simp add: sample_take sample_subtopics)
  have w: "fetch_related (web_item ''links'') sample_net ?l0 [wolf_url] = (?l1, [wolf_bare]) \<and>
      fetch_related (web_item ''links'') sample_net ?l2 [fox_url] = (?l3, [fox_bare])"
    by (simp add: sample_subtopics sample_get_wolf sample_get_fox sample_web_items Let_def)
  have c: "fetch_related (cli_item ''links'') sample_net ?l0 [wolf_url]
        = (?l1, [wolf_listed]) \<and>
      fetch_related (cli_item ''links'') sample_net ?l2 [fox_url] = (?l3, [fox_full])"
    by (simp add: sample_subtopics sample_get_wolf sample_get_fox sample_cli_items Let_def)
  note ok = related_failure_is_not_fatal [where net = sample_net and log = "[]"
      and topic = "''Dog''" and mode = "''links''" and limit = 3 and kws = "[]"
      and ?log0.0 = ?l0 and soup = dog_page and actual = "''Dog''"
      and us = "[wolf_url]" and u = cat_url and vs = "[fox_url]"
      and ?log1.0 = ?l1 and ?log2.0 = ?l2 and e' = "NotFound ''Cat''" and ?log3.0 = ?l3,
      THEN conjunct2, rule_format, OF g]
  note dropped = ok [THEN conjunct2, THEN conjunct2, rule_format, OF l]
  note a = dropped [where before = "[wolf_bare]" and after = "[fox_bare]",
      THEN conjunct1, rule_format, OF w]
  note b = dropped [where before = "[wolf_listed]"
      and after = "[fox_full]", THEN conjunct2, rule_format, OF c]
  note s = ok [THEN conjunct1]
  have f: "get_soup_for_topic sample_net [] ''Cat''
      = ([HttpGet cat_url, ApiSearch ''Cat''], Inl (NotFound ''Cat''))"
    using sample_get_cat [of "[]"] by simp
  note fatal = related_failure_is_not_fatal [where net = sample_net and log = "[]"
      and topic = "''Cat''" and mode = "''links''" and limit = 3 and kws = "[]"
      and ?log0.0 = "[HttpGet cat_url, ApiSearch ''Cat'']" and e = "NotFound ''Cat''",
      THEN conjunct1, rule_format, OF f]
  from a have a': "index sample_net [] ''Dog'' ''links'' 3 [] = (?l3, Inr links_run)"
    by (simp add: links_run_def sample_main_articles replace_def)
  from b have b': "main sample_net [] ''Dog'' ''links'' 3 []
      = (?l3, Inr (''Dog'', [wolf_listed, fox_full]))"
    by simp
  from a' b' s fatal show ?thesis by (intro conjI) simp_all
qed

theorem related_follows_first_links_witness:
  "map url (snd (fetch_related (web_item ''links'') sample_net [HttpGet dog_url] [wolf_url]))
     = [wolf_url] \<and>
   length (snd (fetch_related (web_item ''links'') sample_net [HttpGet dog_url] [wolf_url])) = 1 \<and>
   length (snd (fetch_related (cli_item ''links'') sample_net [HttpGet dog_url] [wolf_url])) = 1 \<and>
   subseq (map url (snd (fetch_related (web_item ''links'') sample_net [HttpGet dog_url] [wolf_url])))
     [wolf_url] \<and>
   r_related (projr (snd (index sample_net [] ''Dog'' ''links'' 1 []))) = [wolf_bare] \<and>
   snd (fetch_related (web_item ''links'') sample_net [HttpGet dog_url]
          [wolf_url, cat_url, fox_url]) = [wolf_bare] @ [] @ [fox_bare] \<and>
   snd (fetch_related (cli_item ''links'') sample_net [HttpGet dog_url]
          [wolf_url, cat_url, fox_url]) = [] @ [wolf_listed] @ [fox_full]"
proof -
  have z: "(0::int) \<le> 1" by simp
  have g: "get_soup_for_topic sample_net [] ''Dog'' = ([HttpGet dog_url], Inr (dog_page, ''Dog''))"
    using sample_get_dog [of "[]"] by simp
  have lk: "take (nat 1) (find_internal_links dog_page) = [wolf_url]"
    by (simp add: sample_links)
  note inst = related_follows_first_links [OF z g lk [symmetric] refl refl,
      where mode = "''links''" and kws = "[]"]
  have r: "\<forall>u \<in> set [wolf_url]. \<forall>lg. resolves sample_net lg (subtopic_of u)"
    by (simp add: resolves_def sample_subtopics sample_get_wolf)
  have n: "nat 1 \<le> length (find_internal_links dog_page)"
    by (simp add: sample_links)
  note all = inst [THEN conjunct2, THEN conjunct2, THEN conjunct2, THEN conjunct2,
      THEN conjunct2, THEN conjunct2, THEN conjunct1, THEN mp, OF r]
  note a = all [THEN conjunct1]
  note b = all [THEN conjunct2, THEN conjunct2, THEN mp, OF n]
  note c = inst [THEN conjunct2, THEN conjunct2, THEN conjunct2, THEN conjunct2, THEN conjunct1]
  have v: "snd (fetch_related (web_item ''links'') sample_net [HttpGet dog_url] [wolf_url])
      = [wolf_bare]"
    by (simp add: sample_subtopics sample_get_wolf sample_web_items Let_def)
  from inst [THEN conjunct1] v
  have d: "r_related (projr (snd (index sample_net [] ''Dog'' ''links'' 1 []))) = [wolf_bare]"
    by simp
  have z3: "(0::int) \<le> 3" by simp
  have lk3: "take (nat 3) (find_internal_links dog_page) = [wolf_url, cat_url, fox_url]"
    by (simp add: sample_links)
  note inst3 = related_follows_first_links [OF z3 g lk3 [symmetric] refl refl,
      where mode = "''links''" and kws = "[]"]
  have w1: "[wolf_url, cat_url, fox_url] = [wolf_url] @ cat_url # [fox_url] \<and>
      fetch_related (web_item ''links'') sample_net [HttpGet dog_url] [wolf_url]
        = ([HttpGet dog_url, HttpGet wolf_url], [wolf_bare])"
    by (simp add: sample_subtopics sample_get_wolf sample_web_items Let_def)
  note s1 = inst3 [THEN conjunct2, THEN conjunct2, THEN conjunct2, THEN conjunct2,
      THEN conjunct2, THEN conjunct2, THEN conjunct2, THEN conjunct1, rule_format, OF w1]
  have e: "snd (fetch_related (web_item ''links'') sample_net [HttpGet dog_url]
          [wolf_url, cat_url, fox_url]) = [wolf_bare] @ [] @ [fox_bare]"
    using s1 by (simp add: sample_subtopics sample_get_cat sample_get_fox sample_web_items Let_def)
  have w2: "[wolf_url, cat_url, fox_url] = [] @ wolf_url # [cat_url, fox_url] \<and>
      fetch_related (cli_item ''links'') sample_net [HttpGet dog_url] []
        = ([HttpGet dog_url], [])"
    by simp
  note s2 = inst3 [THEN conjunct2, THEN conjunct2, THEN conjunct2, THEN conjunct2,
      THEN conjunct2, THEN conjunct2, THEN conjunct2, THEN conjunct2, rule_format, OF w2]
  have f: "snd (fetch_related (cli_item ''links'') sample_net [HttpGet dog_url]
          [wolf_url, cat_url, fox_url]) = [] @ [wolf_listed] @ [fox_full]"
    using s2
    by (simp add: sample_subtopics sample_get_wolf sample_get_cat sample_get_fox
          sample_cli_items Let_def)
  from a b c d e f show ?thesis by simp
qed

text \<open>
  C6 as stated fails when a link does not resolve: the Dog page has four qualifying links,
  the limit is 3, and the related sequence has two items, since Cat is dropped.
\<close>

theorem related_follows_first_links_counterexample:
  "3 \<le> length (find_internal_links dog_page) \<and>
   snd (index sample_net [] ''Dog'' ''links'' 3 []) = Inr links_run \<and>
   length (r_related links_run) = 2"
proof -
  have g: "get_soup_for_topic sample_net [] ''Dog'' = ([HttpGet dog_url], Inr (dog_page, ''Dog''))"
    using sample_get_dog [of "[]"] by simp
  have "fetch_related (web_item ''links'') sample_net [HttpGet dog_url]
      (py_take 3 (find_internal_links dog_page))
      = ([HttpGet dog_url] @ [HttpGet wolf_url, HttpGet cat_url, ApiSearch ''Cat'', HttpGet fox_url],
         [wolf_bare, fox_bare])"
    by (simp only: sample_take sample_related sample_web_items)
  from index_resolved [OF g this, of "[]"]
  have "snd (index sample_net [] ''Dog'' ''links'' 3 []) = Inr links_run"
    by (simp add: links_run_def sample_main_articles replace_def)
  then show ?thesis
    by (simp add: sample_links links_run_def)
qed

theorem filter_applies_to_related_only_witness:
  "snd (index sample_net [] ''Dog'' ''filtered'' 5 [''wolves'']) = Inr filtered_run \<and>
   snd (fetch_related (web_item ''filtered'') sample_net [HttpGet dog_url]
          [wolf_url, cat_url, fox_url, wolf_url]) = [wolf_full, fox_full, wolf_full] \<and>
   filter_by_keyword [r_main filtered_run] [''wolves''] ''or'' = [] \<and>
   snd (main sample_net [] ''Dog'' ''filtered'' 5 [''wolves''])
     = Inr (''Dog'', [wolf_full, wolf_full])"
proof -
  let ?l = "[HttpGet dog_url] @ [HttpGet wolf_url, HttpGet cat_url, ApiSearch ''Cat'',
      HttpGet fox_url, HttpGet wolf_url]"
  have k: "[''wolves''] \<noteq> ([] :: string list)" by simp
  have g: "get_soup_for_topic sample_net [] ''Dog'' = ([HttpGet dog_url], Inr (dog_page, ''Dog''))"
    using sample_get_dog [of "[]"] by simp
  note inst = filter_applies_to_related_only [OF refl k g refl refl, where limit = 5]
  have w: "fetch_related (web_item ''filtered'') sample_net [HttpGet dog_url]
      (py_take 5 (find_internal_links dog_page)) = (?l, [wolf_full, fox_full, wolf_full])"
    by (simp only: sample_take sample_related_all sample_web_items)
  have c: "fetch_related (cli_item ''filtered'') sample_net [HttpGet dog_url]
      (py_take 5 (find_internal_links dog_page)) = (?l, [wolf_full, fox_full, wolf_full])"
    by (simp only: sample_take sample_related_all sample_cli_items)
  note i1 = inst [THEN conjunct1, unfolded w fst_conv snd_conv sample_filter]
  note i2 = inst [THEN conjunct2, THEN conjunct2, THEN conjunct1,
      unfolded c fst_conv snd_conv sample_filter]
  from i1 have a: "snd (index sample_net [] ''Dog'' ''filtered'' 5 [''wolves'']) = Inr filtered_run"
    by (simp add: filtered_run_def sample_main_articles replace_def)
  from i2 have b: "snd (main sample_net [] ''Dog'' ''filtered'' 5 [''wolves''])
      = Inr (''Dog'', [wolf_full, wolf_full])"
    by simp
  have v: "snd (fetch_related (web_item ''filtered'') sample_net [HttpGet dog_url]
          [wolf_url, cat_url, fox_url, wolf_url]) = [wolf_full, fox_full, wolf_full]"
    by (simp only: sample_related_all sample_web_items snd_conv)
  have m: "filter_by_keyword [r_main filtered_run] [''wolves''] ''or'' = []"
    by (simp add: filtered_run_def sample_filter)
  from a v m b show ?thesis by (intro conjI)
qed

text \<open>
  C9 as stated fails in the command-line front end: its result holds no summary of the
  main article. For the topic Dog and the keyword \<open>dog\<close> no related item matches, and
  the result is the topic with an empty list.
\<close>

theorem filter_applies_to_related_only_counterexample:
  "snd (main sample_net [] ''Dog'' ''filtered'' 5 [''dog'']) = Inr (''Dog'', [])"
proof -
  have g: "get_soup_for_topic sample_net [] ''Dog'' = ([HttpGet dog_url], Inr (dog_page, ''Dog''))"
    using sample_get_dog [of "[]"] by simp
  have c: "fetch_related (cli_item ''filtered'') sample_net [HttpGet dog_url]
      (py_take 5 (find_internal_links dog_page))
      = ([HttpGet dog_url] @ [HttpGet wolf_url, HttpGet cat_url, ApiSearch ''Cat'',
           HttpGet fox_url, HttpGet wolf_url],
         [wolf_full, fox_full, wolf_full])"
    by (simp only: sample_take sample_related_all sample_cli_items)
  note run = main_resolved [OF g c, of "[''dog'']", unfolded sample_filter_dog]
  from run show ?thesis by simp
qed

section \<open>Modes without summaries\<close>

lemma web_item_bare:
  "\<not> wants_summary mode \<Longrightarrow>
   excerpt (web_item mode u s p) = [] \<and> categories (web_item mode u s p) = []"
  by (simp add: web_item_def)

lemma cli_item_bare:
  "\<not> wants_summary mode \<Longrightarrow>
   excerpt (cli_item mode u s p) = [] \<and> url (cli_item mode u s p) = u \<and>
   categories (cli_item mode u s p) = get_categories p"
  by (simp add: cli_item_def)

lemma main_article_bare:
  "\<not> wants_summary mode \<Longrightarrow>
   excerpt (main_article_of mode t p) = [] \<and> categories (main_article_of mode t p) = []"
  by (simp add: main_article_of_def)

lemma index_links_mode:
  assumes nw: "\<not> wants_summary mode"
    and run: "index net log topic mode limit kws = (lg, Inr r)"
  shows "excerpt (r_main r) = [] \<and> categories (r_main r) = [] \<and>
     (\<forall>i \<in> set (r_related r). excerpt i = [] \<and> categories i = [])"
proof -
  obtain log0 res where g: "get_soup_for_topic net log topic = (log0, res)"
    by (cases "get_soup_for_topic net log topic")
  show ?thesis
  proof (cases res)
    case (Inl e)
    with g run show ?thesis by (simp add: index_failed)
  next
    case (Inr pa)
    obtain soup actual where pa: "pa = (soup, actual)" by (cases pa)
    let ?web = "fetch_related (web_item mode) net log0 (py_take limit (find_internal_links soup))"
    from nw have nf: "mode \<noteq> ''filtered''" by (auto simp: wants_summary_def)
    from g Inr pa have "get_soup_for_topic net log topic = (log0, Inr (soup, actual))" by simp
    from index_resolved [OF this fetch_related_pair, of mode limit kws] run nf
    have m: "r_main r = main_article_of mode actual soup" and rel: "r_related r = snd ?web"
      by auto
    have "excerpt i = [] \<and> categories i = []" if "i \<in> set (snd ?web)" for i
    proof -
      from fetch_related_items [OF that] obtain u page where
        "i = web_item mode u (subtopic_of u) page" by blast
      with nw show ?thesis by (simp add: web_item_bare)
    qed
    with m rel nw show ?thesis by (simp add: main_article_bare)
  qed
qed

lemma main_links_mode:
  assumes nw: "\<not> wants_summary mode"
    and run: "main net log topic mode limit kws = (lg, Inr (actual, results))"
    and i: "i \<in> set results"
  shows "excerpt i = [] \<and>
     (\<exists>u lg1 lg2 page a.
        get_soup_for_topic net lg1 (subtopic_of u) = (lg2, Inr (page, a)) \<and>
        url i = u \<and> categories i = get_categories page)"
proof -
  obtain log0 res where g: "get_soup_for_topic net log topic = (log0, res)"
    by (cases "get_soup_for_topic net log topic")
  show ?thesis
  proof (cases res)
    case (Inl e)
    with g run show ?thesis by (simp add: main_failed)
  next
    case (Inr pa)
    obtain soup act where pa: "pa = (soup, act)" by (cases pa)
    let ?cli = "fetch_related (cli_item mode) net log0 (py_take limit (find_internal_links soup))"
    from nw have nf: "mode \<noteq> ''filtered''" by (auto simp: wants_summary_def)
    from g Inr pa have "get_soup_for_topic net log topic = (log0, Inr (soup, act))" by simp
    from main_resolved [OF this fetch_related_pair, of mode limit kws] run nf
    have "results = snd ?cli" by auto
    with i have "i \<in> set (snd ?cli)" by simp
    from fetch_related_items [OF this] obtain u lg1 lg2 page a where
      f: "get_soup_for_topic net lg1 (subtopic_of u) = (lg2, Inr (page, a))"
      and e: "i = cli_item mode u (subtopic_of u) page" by blast
    from e nw have "excerpt i = []" and "url i = u" and "categories i = get_categories page"
      by (simp_all add: cli_item_bare)
    with f show ?thesis by blast
  qed
qed

text \<open>
  C1 (as the code has it): in any mode other than \<open>summaries\<close> and \<open>filtered\<close>, so in
  \<open>links\<close> mode, every summary built has an empty excerpt; in the web front end
  (\<open>index\<close>) the main article and every related item also have an empty categories
  sequence; the command-line front end (\<open>main\<close>), which builds related items only, fills
  the categories of each item from the page fetched for its link in these modes too.
\<close>

theorem links_mode_summaries:
  assumes "mode \<noteq> ''summaries''" and "mode \<noteq> ''filtered''"
  shows
   "(\<forall>lg r. index net log topic mode limit kws = (lg, Inr r) \<longrightarrow>
       excerpt (r_main r) = [] \<and> categories (r_main r) = [] \<and>
       (\<forall>i \<in> set (r_related r). excerpt i = [] \<and> categories i = [])) \<and>
    (\<forall>lg actual results. main net log topic mode limit kws = (lg, Inr (actual, results)) \<longrightarrow>
       (\<forall>i \<in> set results.
          excerpt i = [] \<and>
          (\<exists>u lg1 lg2 page a.
             get_soup_for_topic net lg1 (subtopic_of u) = (lg2, Inr (page, a)) \<and>
             url i = u \<and> categories i = get_categories page)))"
proof -
  from assms have nw: "\<not> wants_summary mode" by (simp add: wants_summary_def)
  show ?thesis
  proof (intro conjI allI impI ballI)
    fix lg r
    assume run: "index net log topic mode limit kws = (lg, Inr r)"
    note a = index_links_mode [OF nw run]
    from a show "excerpt (r_main r) = []" by (rule conjunct1)
    from a show "categories (r_main r) = []" by blast
    fix i assume "i \<in> set (r_related r)"
    with a show "excerpt i = []" and "categories i = []" by blast+
  next
    fix lg actual results i
    assume run: "main net log topic mode limit kws = (lg, Inr (actual, results))"
      and i: "i \<in> set results"
    note b = main_links_mode [OF nw run i]
    from b show "excerpt i = []" by (rule conjunct1)
    from b show "\<exists>u lg1 lg2 page a.
             get_soup_for_topic net lg1 (subtopic_of u) = (lg2, Inr (page, a)) \<and>
             url i = u \<and> categories i = get_categories page"
      by (rule conjunct2)
  qed
qed

lemma sample_index_links:
  "index sample_net [] ''Dog'' ''links'' 3 []
     = ([HttpGet dog_url] @ [HttpGet wolf_url, HttpGet cat_url, ApiSearch ''Cat'', HttpGet fox_url],
        Inr links_run)"
proof -
  have g: "get_soup_for_topic sample_net [] ''Dog'' = ([HttpGet dog_url], Inr (dog_page, ''Dog''))"
    using sample_get_dog [of "[]"] by simp
  have "fetch_related (web_item ''links'') sample_net [HttpGet dog_url]
      (py_take 3 (find_internal_links dog_page))
      = ([HttpGet dog_url] @ [HttpGet wolf_url, HttpGet cat_url, ApiSearch ''Cat'', HttpGet fox_url],
         [wolf_bare, fox_bare])"
    by (simp only: sample_take sample_related sample_web_items)
  from index_resolved [OF g this, of "[]"] show ?thesis
    by (simp add: links_run_def sample_main_articles replace_def)
qed

lemma sample_main_links:
  "main sample_net [] ''Dog'' ''links'' 3 []
     = ([HttpGet dog_url] @ [HttpGet wolf_url, HttpGet cat_url, ApiSearch ''Cat'', HttpGet fox_url],
        Inr (''Dog'', [wolf_listed, fox_full]))"
proof -
  have g: "get_soup_for_topic sample_net [] ''Dog'' = ([HttpGet dog_url], Inr (dog_page, ''Dog''))"
    using sample_get_dog [of "[]"] by simp
  have "fetch_related (cli_item ''links'') sample_net [HttpGet dog_url]
      (py_take 3 (find_internal_links dog_page))
      = ([HttpGet dog_url] @ [HttpGet wolf_url, HttpGet cat_url, ApiSearch ''Cat'', HttpGet fox_url],
         [wolf_listed, fox_full])"
    by (simp only: sample_take sample_related sample_cli_items)
  from main_resolved [OF g this, of "[]"] show ?thesis
    by simp
qed

theorem links_mode_summaries_witness:
  "excerpt (r_main links_run) = [] \<and> categories (r_main links_run) = [] \<and>
   excerpt wolf_bare = [] \<and> categories wolf_bare = [] \<and>
   r_related links_run = [wolf_bare, fox_bare] \<and>
   excerpt fox_full = []"
proof -
  have m1: "''links'' \<noteq> ''summaries''" and m2: "''links'' \<noteq> ''filtered''" by simp_all
  note inst = links_mode_summaries [OF m1 m2, of sample_net "[]" "''Dog''" 3 "[]"]
  note web = inst [THEN conjunct1, rule_format, OF sample_index_links]
  have rel: "r_related links_run = [wolf_bare, fox_bare]" by (simp add: links_run_def)
  have "wolf_bare \<in> set (r_related links_run)" by (simp add: rel)
  note w = web [THEN conjunct2, THEN conjunct2, THEN bspec, OF this]
  have "fox_full \<in> set [wolf_listed, fox_full]" by simp
  note c = inst [THEN conjunct2, THEN spec, THEN spec, THEN spec, THEN mp,
      OF sample_main_links, THEN bspec, OF this]
  show ?thesis
    by (intro conjI) (rule web [THEN conjunct1], rule web [THEN conjunct2, THEN conjunct1],
      rule w [THEN conjunct1], rule w [THEN conjunct2], rule rel, rule c [THEN conjunct1])
qed

text \<open>
  C1 as stated fails in the command-line front end: in \<open>links\<close> mode its items carry the
  categories of their pages.
\<close>

theorem links_mode_summaries_counterexample:
  "snd (main sample_net [] ''Dog'' ''links'' 3 [])
     = Inr (''Dog'', [wolf_listed, fox_full]) \<and>
   categories wolf_listed = [''Wolves''] \<and> categories fox_full = [''Foxes'']"
  by (simp add: sample_main_links fox_full_def wolf_listed_def)

end
